theory Spec2Isabelle
  imports
    Main
    "HOL-Library.Char_ord"
    "HOL-Library.List_Lexorder"
    "HOL-Library.Product_Lexorder"
    "HOL-Library.Multiset"
begin

section \<open>Strings\<close>

text \<open>
  A Go string is a byte sequence; \<^typ>\<open>string\<close> is a list of 8-bit characters. With
  \<open>Char_ord\<close> and \<open>List_Lexorder\<close> the order \<open>(<)\<close> on \<^typ>\<open>string\<close> is the
  byte-wise lexicographic order that Go's \<open><\<close> on strings computes.
\<close>

definition HasPrefix :: "string \<Rightarrow> string \<Rightarrow> bool" where
  "HasPrefix s p = (length p \<le> length s \<and> take (length p) s = p)"

definition HasSuffix :: "string \<Rightarrow> string \<Rightarrow> bool" where
  "HasSuffix s p = (length p \<le> length s \<and> drop (length s - length p) s = p)"

definition TrimPrefix :: "string \<Rightarrow> string \<Rightarrow> string" where
  "TrimPrefix s p = (if HasPrefix s p then drop (length p) s else s)"

fun Contains :: "string \<Rightarrow> string \<Rightarrow> bool" where
  "Contains [] sub = (sub = [])"
| "Contains (c # s) sub = (HasPrefix (c # s) sub \<or> Contains s sub)"

text \<open>\<open>strings.Trim(s, "`")\<close>: every leading and trailing backquote is removed.\<close>

definition TrimBackquote :: "string \<Rightarrow> string" where
  "TrimBackquote s =
     rev (dropWhile (\<lambda>c. c = CHR 0x60) (rev (dropWhile (\<lambda>c. c = CHR 0x60) s)))"

text \<open>\<open>strings.Join(xs, "/")\<close>.\<close>

fun JoinSlash :: "string list \<Rightarrow> string" where
  "JoinSlash [] = []"
| "JoinSlash [x] = x"
| "JoinSlash (x # y # ys) = x @ ''/'' @ JoinSlash (y # ys)"

section \<open>The syntax trees of go/ast, as far as the extractor reads them\<close>

text \<open>
  A \<open>*ast.CommentGroup\<close> is represented by the string its \<open>Text()\<close> method returns, a
  \<open>*ast.BasicLit\<close> tag by its \<open>Value\<close>, and a nil pointer by \<open>None\<close>. \<open>OtherExpr\<close> stands
  for every expression node the extractor does not inspect (selectors, arrays, maps,
  channels, literals, ...).
\<close>

datatype expr =
    Ident string
  | StarExpr expr
  | IndexExpr expr expr
  | IndexListExpr expr "expr list"
  | ParenExpr expr
  | Ellipsis "expr option"
  | FuncType "field list option" "field list option" "field list option"
  | StructType "field list option"
  | InterfaceType "field list option"
  | OtherExpr string
and field =
    AstField (fDoc: "string option") (fNames: "string list") (fType: "expr option")
      (fTag: "string option") (fComment: "string option")

type_synonym field_list = "field list option"

record type_spec =
  tsDoc :: "string option"
  tsName :: string
  tsTypeParams :: field_list
  tsAssign :: int
  tsType :: expr

record func_decl =
  fdDoc :: "string option"
  fdRecv :: field_list
  fdName :: string
  fdTypeParams :: field_list
  fdParams :: field_list
  fdResults :: field_list

datatype spec = TypeSpec type_spec | OtherSpec

datatype token = TokIMPORT | TokCONST | TokTYPE | TokVAR

datatype decl =
    GenDecl "string option" token "spec list"
  | FuncDecl func_decl
  | BadDecl

record ast_file =
  filePackage :: string
  fileDecls :: "decl list"

section \<open>The model (model.go)\<close>

datatype TypeKind = TypeKindStruct | TypeKindInterface | TypeKindAlias | TypeKindOther

type_synonym path = "string list"

record Module =
  mod_Path :: string
  mod_Dir :: path

record Param =
  par_Name :: string
  par_Type :: string

record TypeParam =
  tp_Name :: string
  tp_Constraint :: string

record Field =
  fld_Name :: string
  fld_Type :: string
  fld_Tag :: string
  fld_Embedded :: bool
  fld_Exported :: bool

record Function =
  fn_Name :: string
  fn_Exported :: bool
  fn_Doc :: string
  fn_Receiver :: string
  fn_TypeParams :: "TypeParam list"
  fn_Params :: "Param list"
  fn_Results :: "Param list"
  fn_Variadic :: bool

record Type =
  ty_Name :: string
  ty_Kind :: TypeKind
  ty_Exported :: bool
  ty_Doc :: string
  ty_TypeParams :: "TypeParam list"
  ty_Fields :: "Field list"
  ty_Embedded :: "string list"
  ty_Methods :: "Function list"

record Package =
  pkg_Name :: string
  pkg_ImportPath :: string
  pkg_Dir :: string
  pkg_Files :: "string list"
  pkg_Types :: "Type list"
  pkg_Functions :: "Function list"

record Model =
  GeneratedAt :: nat
  Root :: path
  Module :: "Module option"
  Packages :: "Package list"

section \<open>Classification of type declarations\<close>

text \<open>\<open>token.Pos.IsValid\<close>: a position is valid unless it is \<open>NoPos = 0\<close>.\<close>

definition IsValid :: "int \<Rightarrow> bool" where
  "IsValid p = (p \<noteq> 0)"

definition kindForTypeSpec :: "type_spec \<Rightarrow> TypeKind" where
  "kindForTypeSpec ts =
     (if IsValid (tsAssign ts) then TypeKindAlias
      else case tsType ts of
             StructType _ \<Rightarrow> TypeKindStruct
           | InterfaceType _ \<Rightarrow> TypeKindInterface
           | _ \<Rightarrow> TypeKindOther)"

section \<open>Library functions taken as parameters\<close>

text \<open>
  Three functions of the Go distribution that the extractor calls are not modelled but
  taken as parameters: the rendering of an expression by \<open>go/printer\<close> (what
  \<open>printer.Fprint\<close> leaves in the buffer, also for a nil expression),
  \<open>ast.IsExported\<close> and \<open>strings.TrimSpace\<close> (both depend on Unicode tables).
\<close>

record golib =
  Fprint :: "expr option \<Rightarrow> string"
  IsExported :: "string \<Rightarrow> bool"
  TrimSpace :: "string \<Rightarrow> string"

definition exprString :: "golib \<Rightarrow> expr option \<Rightarrow> string" where
  "exprString L e = Fprint L e"

section \<open>Sorting\<close>

text \<open>
  \<open>sort.Slice\<close> and \<open>sort.Strings\<close> sort in place with the comparison they are given.
  The library runs the insertion sort below on a slice of at most 12 elements:
  \<^verbatim>\<open>for i := a + 1; i < b; i++ { for j := i; j > a && less(j, j-1); j-- { swap(j, j-1) } }\<close>
  Longer slices go through pattern-defeating quicksort, whose result is again an
  arrangement of the same elements ordered under the comparison; where it puts elements that
  compare equal is not modelled. \<open>insertBack\<close> is the inner loop: the sorted prefix is held
  in reverse, and the new element moves towards the front while it is less than its
  neighbour.
\<close>

fun insertBack :: "('a \<Rightarrow> 'a \<Rightarrow> bool) \<Rightarrow> 'a \<Rightarrow> 'a list \<Rightarrow> 'a list" where
  "insertBack lt x [] = [x]"
| "insertBack lt x (y # rs) = (if lt x y then y # insertBack lt x rs else x # y # rs)"

definition sortSlice :: "('a \<Rightarrow> 'a \<Rightarrow> bool) \<Rightarrow> 'a list \<Rightarrow> 'a list" where
  "sortSlice lt xs = rev (foldl (\<lambda>rs x. insertBack lt x rs) [] xs)"

definition sortStrings :: "string list \<Rightarrow> string list" where
  "sortStrings xs = sortSlice (\<lambda>a b. a < b) xs"

section \<open>Declaration extraction (generate.go)\<close>

definition docText :: "golib \<Rightarrow> string option \<Rightarrow> string option \<Rightarrow> bool \<Rightarrow> string" where
  "docText L primary fallback fallbackAllowed =
     (case primary of
        Some t \<Rightarrow> TrimSpace L t
      | None \<Rightarrow>
          (case fallback of
             Some t \<Rightarrow> if fallbackAllowed then TrimSpace L t else []
           | None \<Rightarrow> []))"

definition typeParamsOfField :: "golib \<Rightarrow> field \<Rightarrow> TypeParam list" where
  "typeParamsOfField L f =
     (let constraint = (case fType f of None \<Rightarrow> [] | Some e \<Rightarrow> exprString L (Some e))
      in map (\<lambda>n. \<lparr>tp_Name = n, tp_Constraint = constraint\<rparr>) (fNames f))"

definition parseTypeParams :: "golib \<Rightarrow> field_list \<Rightarrow> TypeParam list" where
  "parseTypeParams L params =
     (case params of None \<Rightarrow> [] | Some fl \<Rightarrow> concat (map (typeParamsOfField L) fl))"

definition paramsOfField :: "golib \<Rightarrow> field \<Rightarrow> Param list" where
  "paramsOfField L f =
     (let typ = exprString L (fType f)
      in if fNames f = [] then [\<lparr>par_Name = [], par_Type = typ\<rparr>]
         else map (\<lambda>n. \<lparr>par_Name = n, par_Type = typ\<rparr>) (fNames f))"

definition isEllipsis :: "expr option \<Rightarrow> bool" where
  "isEllipsis e = (case e of Some (Ellipsis _) \<Rightarrow> True | _ \<Rightarrow> False)"

definition parseParams :: "golib \<Rightarrow> field_list \<Rightarrow> Param list \<times> bool" where
  "parseParams L params =
     (case params of
        None \<Rightarrow> ([], False)
      | Some fl \<Rightarrow>
          if fl = [] then ([], False)
          else (concat (map (paramsOfField L) fl), isEllipsis (fType (last fl))))"

definition parseResults :: "golib \<Rightarrow> field_list \<Rightarrow> Param list" where
  "parseResults L results =
     (case results of None \<Rightarrow> [] | Some fl \<Rightarrow> concat (map (paramsOfField L) fl))"

text \<open>The loop of \<open>parseStructFields\<close>, with its two result slices as accumulators.\<close>

fun structFieldsLoop ::
  "golib \<Rightarrow> field list \<Rightarrow> Field list \<Rightarrow> string list \<Rightarrow> Field list \<times> string list"
  where
  "structFieldsLoop L [] out embedded = (out, embedded)"
| "structFieldsLoop L (f # fs) out embedded =
     (let typ = exprString L (fType f);
          tag = (case fTag f of None \<Rightarrow> [] | Some v \<Rightarrow> TrimBackquote v)
      in if fNames f = [] then structFieldsLoop L fs out (embedded @ [typ])
         else structFieldsLoop L fs
                (out @ map (\<lambda>n. \<lparr>fld_Name = n, fld_Type = typ, fld_Tag = tag,
                                 fld_Embedded = False, fld_Exported = IsExported L n\<rparr>)
                         (fNames f))
                embedded)"

definition parseStructFields :: "golib \<Rightarrow> field_list \<Rightarrow> Field list \<times> string list" where
  "parseStructFields L flds =
     (case flds of None \<Rightarrow> ([], []) | Some fl \<Rightarrow> structFieldsLoop L fl [] [])"

fun interfaceMethodsLoop ::
  "golib \<Rightarrow> field list \<Rightarrow> Function list \<Rightarrow> string list \<Rightarrow> Function list \<times> string list"
  where
  "interfaceMethodsLoop L [] out embedded = (out, embedded)"
| "interfaceMethodsLoop L (f # fs) out embedded =
     (if fNames f = [] then
        interfaceMethodsLoop L fs out (embedded @ [exprString L (fType f)])
      else if length (fNames f) \<noteq> 1 then interfaceMethodsLoop L fs out embedded
      else
        (case fType f of
           Some (FuncType tps ps rs) \<Rightarrow>
             interfaceMethodsLoop L fs
               (out @ [\<lparr>fn_Name = hd (fNames f), fn_Exported = IsExported L (hd (fNames f)),
                        fn_Doc = docText L (fDoc f) (fComment f) False, fn_Receiver = [],
                        fn_TypeParams = parseTypeParams L tps,
                        fn_Params = fst (parseParams L ps),
                        fn_Results = parseResults L rs,
                        fn_Variadic = snd (parseParams L ps)\<rparr>])
               embedded
         | _ \<Rightarrow> interfaceMethodsLoop L fs out embedded))"

definition parseInterfaceMethods :: "golib \<Rightarrow> field_list \<Rightarrow> Function list \<times> string list" where
  "parseInterfaceMethods L methods =
     (case methods of None \<Rightarrow> ([], []) | Some fl \<Rightarrow> interfaceMethodsLoop L fl [] [])"

fun receiverBaseName :: "expr \<Rightarrow> string" where
  "receiverBaseName (Ident name) = name"
| "receiverBaseName (StarExpr x) = receiverBaseName x"
| "receiverBaseName (IndexExpr x i) = receiverBaseName x"
| "receiverBaseName (IndexListExpr x is) = receiverBaseName x"
| "receiverBaseName (ParenExpr x) = receiverBaseName x"
| "receiverBaseName _ = []"

section \<open>The file system\<close>

text \<open>
  A path is absolute and clean, given by its components below the root \<open>/\<close> (the root is
  \<open>[]\<close>), so \<open>filepath.Clean\<close> is the identity, \<open>filepath.Dir\<close> is \<^const>\<open>butlast\<close>,
  \<open>filepath.Join(dir, name)\<close> is \<open>dir @ [name]\<close>, and \<open>filepath.ToSlash\<close> is the identity
  (Unix). The file system does not change during a run and has no symbolic links.

  An operating-system error carries what the code asks of it: whether
  \<open>errors.Is(err, os.ErrNotExist)\<close> holds and the text of \<open>err.Error()\<close>.

  A file is what reading it yields. For \<open>bufio.Scanner\<close> over \<open>os.Open\<close>: either the file
  cannot be opened, or the scanner delivers the given lines and then stops;
  \<open>Scanned ls (Some k)\<close> says that a read error is recorded during call number \<open>k\<close>
  (counted from 0) of \<open>Scan\<close>, so that \<open>Err()\<close> reports it once more than \<open>k\<close> calls
  have been made. For \<open>parser.ParseFile\<close>: the syntax tree, or the error.
\<close>

record ioerr =
  notExist :: bool
  message :: string

datatype scan = Unopenable | Scanned "string list" "nat option"

datatype parse = ParseFailed ioerr | Parsed ast_file

datatype node =
    FileNode scan parse
  | DirNode "(string \<times> node) list"
  | UnreadableDir ioerr

datatype error =
    StatRoot path
  | NoGoFiles
  | ParseDirError path ioerr
  | WalkError path ioerr
  | OpenError path
  | ReadError path
  | NoModulePath path

fun lookup :: "node \<Rightarrow> path \<Rightarrow> node option"
  and lookupIn :: "(string \<times> node) list \<Rightarrow> string \<Rightarrow> path \<Rightarrow> node option" where
  "lookup n [] = Some n"
| "lookup (DirNode es) (x # xs) = lookupIn es x xs"
| "lookup (FileNode sc pr) (x # xs) = None"
| "lookup (UnreadableDir e) (x # xs) = None"
| "lookupIn [] x xs = None"
| "lookupIn ((y, n) # es) x xs = (if x = y then lookup n xs else lookupIn es x xs)"

definition fileExists :: "node \<Rightarrow> path \<Rightarrow> bool" where
  "fileExists fs p = (lookup fs p \<noteq> None)"

text \<open>What opening a path for scanning gives: opening a directory succeeds and the first
  read fails.\<close>

definition openScan :: "node \<Rightarrow> path \<Rightarrow> scan" where
  "openScan fs p =
     (case lookup fs p of
        None \<Rightarrow> Unopenable
      | Some (FileNode sc pr) \<Rightarrow> sc
      | Some (DirNode es) \<Rightarrow> Scanned [] (Some 0)
      | Some (UnreadableDir e) \<Rightarrow> Unopenable)"

definition scanErr :: "nat option \<Rightarrow> nat \<Rightarrow> bool" where
  "scanErr latch calls = (case latch of None \<Rightarrow> False | Some k \<Rightarrow> k < calls)"

section \<open>Generated-file sniffing\<close>

text \<open>
  The loop \<^verbatim>\<open>for i := 0; i < 20 && scanner.Scan(); i++\<close> of \<open>isGeneratedFile\<close> and the test
  of \<open>scanner.Err()\<close> after it. \<open>i\<close> is also the number of calls of \<open>Scan\<close> made so far.
  The result \<open>Inl e\<close> is the pair \<open>(false, e)\<close>, \<open>Inr b\<close> the pair \<open>(b, nil)\<close>.
\<close>

definition generatedLine :: "string \<Rightarrow> bool" where
  "generatedLine line = (Contains line ''DO NOT EDIT'' \<and> Contains line ''Code generated'')"

fun generatedLoop :: "path \<Rightarrow> nat \<Rightarrow> string list \<Rightarrow> nat option \<Rightarrow> error + bool" where
  "generatedLoop p i [] latch =
     (if scanErr latch (if i < 20 then i + 1 else i) then Inl (ReadError p) else Inr False)"
| "generatedLoop p i (line # rest) latch =
     (if i < 20 then
        (if generatedLine line then Inr True else generatedLoop p (i + 1) rest latch)
      else if scanErr latch i then Inl (ReadError p) else Inr False)"

definition isGeneratedFile :: "node \<Rightarrow> path \<Rightarrow> error + bool" where
  "isGeneratedFile fs p =
     (case openScan fs p of
        Unopenable \<Rightarrow> Inl (OpenError p)
      | Scanned ls latch \<Rightarrow> generatedLoop p 0 ls latch)"

section \<open>Module locator\<close>

fun modulePathLoop :: "golib \<Rightarrow> path \<Rightarrow> nat \<Rightarrow> string list \<Rightarrow> nat option \<Rightarrow> error + string"
  where
  "modulePathLoop L p i [] latch =
     (if scanErr latch (i + 1) then Inl (ReadError p) else Inl (NoModulePath p))"
| "modulePathLoop L p i (text # rest) latch =
     (let line = TrimSpace L text
      in if HasPrefix line ''module '' then Inr (TrimSpace L (TrimPrefix line ''module ''))
         else if HasPrefix line (''module'' @ [CHR 0x09])
           then Inr (TrimSpace L (TrimPrefix line (''module'' @ [CHR 0x09])))
         else modulePathLoop L p (i + 1) rest latch)"

definition readModulePath :: "golib \<Rightarrow> node \<Rightarrow> path \<Rightarrow> error + string" where
  "readModulePath L fs goModPath =
     (case openScan fs goModPath of
        Unopenable \<Rightarrow> Inl (OpenError goModPath)
      | Scanned ls latch \<Rightarrow> modulePathLoop L goModPath 0 ls latch)"

text \<open>The cache of the locator: a Go map from directory to \<open>*Module\<close> (possibly nil).\<close>

type_synonym cache = "path \<rightharpoonup> Module option"

function moduleForDir ::
  "golib \<Rightarrow> node \<Rightarrow> cache \<Rightarrow> path \<Rightarrow> (error + Module option) \<times> cache" where
  "moduleForDir L fs c dir =
     (case c dir of
        Some m \<Rightarrow> (Inr m, c)
      | None \<Rightarrow>
          if fileExists fs (dir @ [''go.mod'']) then
            (case readModulePath L fs (dir @ [''go.mod'']) of
               Inl e \<Rightarrow> (Inl e, c)
             | Inr modPath \<Rightarrow>
                 (Inr (Some \<lparr>mod_Path = modPath, mod_Dir = dir\<rparr>),
                  c(dir \<mapsto> Some \<lparr>mod_Path = modPath, mod_Dir = dir\<rparr>)))
          else if butlast dir = dir then (Inr None, c(dir \<mapsto> None))
          else
            (case moduleForDir L fs c (butlast dir) of
               (Inl e, c') \<Rightarrow> (Inl e, c')
             | (Inr m, c') \<Rightarrow> (Inr m, c'(dir \<mapsto> m))))"
  by pat_completeness auto
termination
proof (relation "measure (\<lambda>(L, fs, c, dir). length dir)")
  show "wf (measure (\<lambda>(L, fs, c, dir). length dir))"
    by simp
next
  fix L :: golib and fs :: node and c :: cache and dir :: path
  assume "butlast dir \<noteq> dir"
  then have "dir \<noteq> []"
    by auto
  then show "((L, fs, c, butlast dir), (L, fs, c, dir)) \<in> measure (\<lambda>(L, fs, c, dir). length dir)"
    by simp
qed

declare moduleForDir.simps [simp del]

section \<open>Relative paths\<close>

text \<open>
  \<open>filepath.Rel\<close> on two absolute clean paths: the common leading components are
  dropped, one \<open>..\<close> stands for every remaining component of the base, and the result is
  \<open>.\<close> when nothing is left. On such paths \<open>Rel\<close> returns no error, so the error branch of
  \<open>toRelPath\<close> is not taken.
\<close>

fun stripCommon :: "path \<Rightarrow> path \<Rightarrow> path \<times> path" where
  "stripCommon (a # as) (b # bs) = (if a = b then stripCommon as bs else (a # as, b # bs))"
| "stripCommon as bs = (as, bs)"

definition Rel :: "path \<Rightarrow> path \<Rightarrow> string" where
  "Rel base targ =
     (let cs = replicate (length (fst (stripCommon base targ))) ''..'' @
               snd (stripCommon base targ)
      in if cs = [] then ''.'' else JoinSlash cs)"

definition toRelPath :: "path \<Rightarrow> path \<Rightarrow> string" where
  "toRelPath baseDir p = Rel baseDir p"

section \<open>Packages\<close>

text \<open>
  \<open>ast.Package.Files\<close> is a Go map from file name to syntax tree; \<open>parser.ParseDir\<close>
  uses the joined path \<open>filepath.Join(dir, name)\<close> as the key. Ranging over a Go map
  visits its entries in an order that is not specified and may differ from one loop to
  the next. Each of the three loops over \<open>pkg.Files\<close> therefore takes the list of
  entries in the order in which that loop visits them.
\<close>

type_synonym files = "(path \<times> ast_file) list"

definition packageFiles :: "path \<Rightarrow> path \<Rightarrow> files \<Rightarrow> string list" where
  "packageFiles relBase dir fs0 =
     sortStrings (map (\<lambda>(file, src). toRelPath relBase (dir @ file)) fs0)"

subsection \<open>Pass 1: type declarations\<close>

definition typeOfSpec :: "golib \<Rightarrow> string option \<Rightarrow> nat \<Rightarrow> type_spec \<Rightarrow> Type" where
  "typeOfSpec L genDoc nspecs ts =
     (let t = \<lparr>ty_Name = tsName ts, ty_Kind = kindForTypeSpec ts,
                ty_Exported = IsExported L (tsName ts),
                ty_Doc = docText L (tsDoc ts) genDoc (nspecs = 1),
                ty_TypeParams = parseTypeParams L (tsTypeParams ts),
                ty_Fields = [], ty_Embedded = [], ty_Methods = []\<rparr>
      in case tsType ts of
           StructType st \<Rightarrow>
             t\<lparr>ty_Fields := fst (parseStructFields L st),
               ty_Embedded := snd (parseStructFields L st)\<rparr>
         | InterfaceType st \<Rightarrow>
             t\<lparr>ty_Methods := fst (parseInterfaceMethods L st),
               ty_Embedded := snd (parseInterfaceMethods L st)\<rparr>
         | _ \<Rightarrow> t)"

text \<open>The state of both passes: the package under construction and \<open>typesByName\<close>.\<close>

type_synonym xstate = "Package \<times> (string \<rightharpoonup> nat)"

definition pass1Spec :: "golib \<Rightarrow> string option \<Rightarrow> nat \<Rightarrow> spec \<Rightarrow> xstate \<Rightarrow> xstate" where
  "pass1Spec L genDoc nspecs sp st =
     (case sp of
        OtherSpec \<Rightarrow> st
      | TypeSpec ts \<Rightarrow>
          (let t = typeOfSpec L genDoc nspecs ts;
               pkgModel = (fst st)\<lparr>pkg_Types := pkg_Types (fst st) @ [t]\<rparr>
           in (pkgModel, (snd st)(ty_Name t \<mapsto> length (pkg_Types pkgModel) - 1))))"

definition pass1Decl :: "golib \<Rightarrow> decl \<Rightarrow> xstate \<Rightarrow> xstate" where
  "pass1Decl L d st =
     (case d of
        GenDecl doc tok specs \<Rightarrow>
          if tok \<noteq> TokTYPE then st else fold (pass1Spec L doc (length specs)) specs st
      | _ \<Rightarrow> st)"

definition pass1 :: "golib \<Rightarrow> files \<Rightarrow> xstate \<Rightarrow> xstate" where
  "pass1 L fs1 st = fold (\<lambda>(file, src). fold (pass1Decl L) (fileDecls src)) fs1 st"

subsection \<open>Pass 2: functions and methods\<close>

definition funcModel :: "golib \<Rightarrow> func_decl \<Rightarrow> Function" where
  "funcModel L fn =
     \<lparr>fn_Name = fdName fn, fn_Exported = IsExported L (fdName fn),
      fn_Doc = docText L (fdDoc fn) None False, fn_Receiver = [],
      fn_TypeParams = parseTypeParams L (fdTypeParams fn),
      fn_Params = fst (parseParams L (fdParams fn)),
      fn_Results = parseResults L (fdResults fn),
      fn_Variadic = snd (parseParams L (fdParams fn))\<rparr>"

definition appendFunction :: "Function \<Rightarrow> Package \<Rightarrow> Package" where
  "appendFunction fnModel pkgModel =
     pkgModel\<lparr>pkg_Functions := pkg_Functions pkgModel @ [fnModel]\<rparr>"

definition appendMethod :: "nat \<Rightarrow> Function \<Rightarrow> Package \<Rightarrow> Package" where
  "appendMethod idx fnModel pkgModel =
     pkgModel\<lparr>pkg_Types := (pkg_Types pkgModel)
       [idx := (pkg_Types pkgModel ! idx)
                 \<lparr>ty_Methods := ty_Methods (pkg_Types pkgModel ! idx) @ [fnModel]\<rparr>]\<rparr>"

text \<open>
  The body of the second loop for one function declaration. The receiver expression of
  the first receiver field may be nil in \<open>go/ast\<close>; \<open>receiverBaseName\<close> then takes its
  default branch. \<open>typesByName\<close> only holds indices below the length of \<open>Types\<close>
  (lemma \<open>pass1_indices\<close>), so the indexing of \<open>appendMethod\<close> stays in range.
\<close>

definition pass2Func :: "golib \<Rightarrow> (string \<rightharpoonup> nat) \<Rightarrow> func_decl \<Rightarrow> Package \<Rightarrow> Package" where
  "pass2Func L typesByName fn pkgModel =
     (case fdRecv fn of
        None \<Rightarrow> appendFunction (funcModel L fn) pkgModel
      | Some [] \<Rightarrow> appendFunction (funcModel L fn) pkgModel
      | Some (r # rs) \<Rightarrow>
          (let recvType = fType r;
               fnModel = (funcModel L fn)\<lparr>fn_Receiver := exprString L recvType\<rparr>;
               recvName = (case recvType of None \<Rightarrow> [] | Some e \<Rightarrow> receiverBaseName e)
           in if recvName = [] then appendFunction fnModel pkgModel
              else case typesByName recvName of
                     Some idx \<Rightarrow> appendMethod idx fnModel pkgModel
                   | None \<Rightarrow> appendFunction fnModel pkgModel))"

definition pass2Decl :: "golib \<Rightarrow> (string \<rightharpoonup> nat) \<Rightarrow> decl \<Rightarrow> Package \<Rightarrow> Package" where
  "pass2Decl L typesByName d pkgModel =
     (case d of FuncDecl fn \<Rightarrow> pass2Func L typesByName fn pkgModel | _ \<Rightarrow> pkgModel)"

definition pass2 :: "golib \<Rightarrow> (string \<rightharpoonup> nat) \<Rightarrow> files \<Rightarrow> Package \<Rightarrow> Package" where
  "pass2 L typesByName fs2 pkgModel =
     fold (\<lambda>(file, src). fold (pass2Decl L typesByName) (fileDecls src)) fs2 pkgModel"

subsection \<open>\<open>extractPackage\<close> and \<open>sortPackage\<close>\<close>

definition importPath :: "Module option \<Rightarrow> path \<Rightarrow> string" where
  "importPath m dir =
     (case m of
        None \<Rightarrow> []
      | Some md \<Rightarrow>
          if Rel (mod_Dir md) dir = ''.'' then mod_Path md
          else mod_Path md @ ''/'' @ Rel (mod_Dir md) dir)"

text \<open>
  \<open>extractPackage\<close>; \<open>fs0\<close>, \<open>fs1\<close> and \<open>fs2\<close> are \<open>pkg.Files\<close> in the order of the loop of
  \<open>packageFiles\<close>, of the first and of the second pass.
\<close>

definition extractPackage ::
  "golib \<Rightarrow> node \<Rightarrow> cache \<Rightarrow> path \<Rightarrow> string \<Rightarrow> files \<Rightarrow> files \<Rightarrow> files \<Rightarrow> path \<Rightarrow>
     (error + Package) \<times> cache" where
  "extractPackage L fs c dir pkgName fs0 fs1 fs2 relBase =
     (case moduleForDir L fs c dir of
        (Inl e, c') \<Rightarrow> (Inl e, c')
      | (Inr m, c') \<Rightarrow>
          (let pkgModel = \<lparr>pkg_Name = pkgName, pkg_ImportPath = importPath m dir,
                           pkg_Dir = toRelPath relBase dir,
                           pkg_Files = packageFiles relBase dir fs0,
                           pkg_Types = [], pkg_Functions = []\<rparr>;
               st = pass1 L fs1 (pkgModel, Map.empty)
           in (Inr (pass2 L (snd st) fs2 (fst st)), c')))"

definition sortType :: "Type \<Rightarrow> Type" where
  "sortType t =
     t\<lparr>ty_Fields := sortSlice (\<lambda>a b. fld_Name a < fld_Name b) (ty_Fields t),
       ty_Embedded := sortStrings (ty_Embedded t),
       ty_Methods := sortSlice (\<lambda>a b. fn_Name a < fn_Name b) (ty_Methods t)\<rparr>"

definition sortPackage :: "Package \<Rightarrow> Package" where
  "sortPackage pkg =
     pkg\<lparr>pkg_Files := sortStrings (pkg_Files pkg),
         pkg_Functions := sortSlice (\<lambda>a b. fn_Name a < fn_Name b) (pkg_Functions pkg),
         pkg_Types := map sortType (sortSlice (\<lambda>a b. ty_Name a < ty_Name b) (pkg_Types pkg))\<rparr>"

section \<open>Options (options.go)\<close>

record Options =
  IncludeTests :: bool
  IncludeGenerated :: bool
  ExcludeDirNames :: "string list"
  Indent :: string

definition withDefaults :: "Options \<Rightarrow> Options" where
  "withDefaults o1 =
     (let o2 = (if length (ExcludeDirNames o1) = 0
                then o1\<lparr>ExcludeDirNames :=
                       [''.git'', ''.idea'', ''.vscode'', ''node_modules'', ''testdata'', ''vendor'']\<rparr>
                else o1)
      in if Indent o2 = [] then o2\<lparr>Indent := ''  ''\<rparr> else o2)"

section \<open>Parsing one directory\<close>

text \<open>The filter closure of \<open>parseDir\<close>.\<close>

definition fileFilter :: "node \<Rightarrow> path \<Rightarrow> string \<Rightarrow> Options \<Rightarrow> string \<Rightarrow> bool" where
  "fileFilter fs dir onlyFile opts name =
     (if \<not> HasSuffix name ''.go'' then False
      else if onlyFile \<noteq> [] \<and> name \<noteq> onlyFile then False
      else if \<not> IncludeTests opts \<and> HasSuffix name ''_test.go'' then False
      else if \<not> IncludeGenerated opts \<and> isGeneratedFile fs (dir @ [name]) = Inr True
        then False
      else True)"

text \<open>
  \<open>parser.ParseDir\<close> (Go distribution): the entries of the directory that are not
  directories, end in \<open>.go\<close> and pass the filter are parsed; a parsed file is stored
  under its package name with the joined path as key; the first parse error is kept
  and returned beside the packages. When the directory cannot be listed, the error is
  returned with no packages. The result is a Go map from package name to package;
  here its entries are listed in the order in which the packages first appear.
\<close>

type_synonym pkgmap = "(string \<times> files) list"

fun addFile :: "string \<Rightarrow> path \<times> ast_file \<Rightarrow> pkgmap \<Rightarrow> pkgmap" where
  "addFile name kv [] = [(name, [kv])]"
| "addFile name kv ((n, fl) # ps) =
     (if n = name then (n, fl @ [kv]) # ps else (n, fl) # addFile name kv ps)"

fun parseEntries ::
  "path \<Rightarrow> (string \<Rightarrow> bool) \<Rightarrow> (string \<times> node) list \<Rightarrow> pkgmap \<times> ioerr option \<Rightarrow>
     pkgmap \<times> ioerr option" where
  "parseEntries dir flt [] acc = acc"
| "parseEntries dir flt ((name, n) # es) (pkgs, first) =
     (case n of
        FileNode sc pr \<Rightarrow>
          if \<not> HasSuffix name ''.go'' then parseEntries dir flt es (pkgs, first)
          else if \<not> flt name then parseEntries dir flt es (pkgs, first)
          else
            (case pr of
               Parsed src \<Rightarrow>
                 parseEntries dir flt es (addFile (filePackage src) (dir @ [name], src) pkgs, first)
             | ParseFailed e \<Rightarrow>
                 parseEntries dir flt es (pkgs, if first = None then Some e else first))
      | _ \<Rightarrow> parseEntries dir flt es (pkgs, first))"

definition pathString :: "path \<Rightarrow> string" where
  "pathString p = ''/'' @ JoinSlash p"

definition ParseDir :: "node \<Rightarrow> path \<Rightarrow> (string \<Rightarrow> bool) \<Rightarrow> pkgmap \<times> ioerr option" where
  "ParseDir fs dir flt =
     (case lookup fs dir of
        Some (DirNode es) \<Rightarrow> parseEntries dir flt es ([], None)
      | Some (UnreadableDir e) \<Rightarrow> ([], Some e)
      | Some (FileNode sc pr) \<Rightarrow>
          ([], Some \<lparr>notExist = False,
                     message = ''open '' @ pathString dir @ '': not a directory''\<rparr>)
      | None \<Rightarrow>
          ([], Some \<lparr>notExist = True,
                     message = ''open '' @ pathString dir @ '': no such file or directory''\<rparr>))"

text \<open>
  The loop of \<open>parseDir\<close> over the packages of the directory. The order in which Go
  ranges over the map of packages and over the files of a package is not specified;
  here the packages are taken in the order of \<open>ParseDir\<close> above, and all three loops of
  \<open>extractPackage\<close> see the files in directory order.
\<close>

fun extractAll ::
  "golib \<Rightarrow> node \<Rightarrow> path \<Rightarrow> path \<Rightarrow> pkgmap \<Rightarrow> Package list \<Rightarrow> cache \<Rightarrow>
     (error + Package list) \<times> cache" where
  "extractAll L fs dir relBase [] out c = (Inr out, c)"
| "extractAll L fs dir relBase ((pkgName, pkg) # ps) out c =
     (case extractPackage L fs c dir pkgName pkg pkg pkg relBase of
        (Inl e, c') \<Rightarrow> (Inl e, c')
      | (Inr pkgModel, c') \<Rightarrow>
          extractAll L fs dir relBase ps (out @ [sortPackage pkgModel]) c')"

definition parseDir ::
  "golib \<Rightarrow> node \<Rightarrow> cache \<Rightarrow> path \<Rightarrow> string \<Rightarrow> path \<Rightarrow> Options \<Rightarrow>
     (error + Package list) \<times> cache" where
  "parseDir L fs c dir onlyFile relBase opts =
     (case ParseDir fs dir (fileFilter fs dir onlyFile opts) of
        (parsed, Some e) \<Rightarrow>
          if notExist e then (Inl NoGoFiles, c)
          else if Contains (message e) ''no Go files'' then (Inl NoGoFiles, c)
          else (Inl (ParseDirError dir e), c)
      | (parsed, None) \<Rightarrow>
          if length parsed = 0 then (Inl NoGoFiles, c)
          else extractAll L fs dir relBase parsed [] c)"

section \<open>The walk and \<open>Generate\<close>\<close>

text \<open>
  The function passed to \<open>filepath.WalkDir\<close>. Its state is the slice \<open>pkgs\<close> and the
  cache of the module locator. It returns nil (with the new state), \<open>fs.SkipDir\<close> or
  an error.
\<close>

type_synonym wstate = "Package list \<times> cache"

datatype cbres = CbNil wstate | CbSkipDir | CbErr error

definition isDirNode :: "node \<Rightarrow> bool" where
  "isDirNode n = (case n of FileNode sc pr \<Rightarrow> False | _ \<Rightarrow> True)"

definition walkFn ::
  "golib \<Rightarrow> node \<Rightarrow> Options \<Rightarrow> path \<Rightarrow> path \<Rightarrow> string \<Rightarrow> bool \<Rightarrow> ioerr option \<Rightarrow> wstate \<Rightarrow> cbres"
  where
  "walkFn L fs opts baseDir p name isDir walkErr st =
     (case walkErr of
        Some e \<Rightarrow> CbErr (WalkError p e)
      | None \<Rightarrow>
          if \<not> isDir then CbNil st
          else if name \<in> set (ExcludeDirNames opts) then CbSkipDir
          else
            (case parseDir L fs (snd st) p [] baseDir opts of
               (Inl e, c') \<Rightarrow> if e = NoGoFiles then CbNil (fst st, c') else CbErr e
             | (Inr parsed, c') \<Rightarrow> CbNil (fst st @ parsed, c')))"

text \<open>
  \<open>filepath.WalkDir\<close> (Go distribution): the function is called on the entry; for a
  directory that it does not skip, the directory is listed (a failure to list is
  reported to the function in a second call) and the entries are walked in the order
  of the listing. \<open>fs.SkipDir\<close> returned for a directory skips it; returned for another
  entry it ends the walk of the remaining entries of the enclosing directory.
\<close>

datatype wres = WNil wstate | WSkipDir wstate | WErr error

fun walkDir ::
  "golib \<Rightarrow> node \<Rightarrow> Options \<Rightarrow> path \<Rightarrow> path \<Rightarrow> string \<Rightarrow> node \<Rightarrow> wstate \<Rightarrow> wres"
  and walkEntries ::
  "golib \<Rightarrow> node \<Rightarrow> Options \<Rightarrow> path \<Rightarrow> path \<Rightarrow> (string \<times> node) list \<Rightarrow> wstate \<Rightarrow> wres"
  where
  "walkDir L fs opts baseDir p name (FileNode sc pr) st =
     (case walkFn L fs opts baseDir p name False None st of
        CbErr e \<Rightarrow> WErr e
      | CbSkipDir \<Rightarrow> WSkipDir st
      | CbNil st' \<Rightarrow> WNil st')"
| "walkDir L fs opts baseDir p name (UnreadableDir e) st =
     (case walkFn L fs opts baseDir p name True None st of
        CbErr e' \<Rightarrow> WErr e'
      | CbSkipDir \<Rightarrow> WNil st
      | CbNil st' \<Rightarrow>
          (case walkFn L fs opts baseDir p name True (Some e) st' of
             CbErr e' \<Rightarrow> WErr e'
           | CbSkipDir \<Rightarrow> WNil st'
           | CbNil st'' \<Rightarrow> WNil st''))"
| "walkDir L fs opts baseDir p name (DirNode es) st =
     (case walkFn L fs opts baseDir p name True None st of
        CbErr e \<Rightarrow> WErr e
      | CbSkipDir \<Rightarrow> WNil st
      | CbNil st' \<Rightarrow> walkEntries L fs opts baseDir p es st')"
| "walkEntries L fs opts baseDir p [] st = WNil st"
| "walkEntries L fs opts baseDir p ((name, n) # es) st =
     (case walkDir L fs opts baseDir (p @ [name]) name n st of
        WErr e \<Rightarrow> WErr e
      | WSkipDir st' \<Rightarrow> WNil st'
      | WNil st' \<Rightarrow> walkEntries L fs opts baseDir p es st')"

definition WalkDir ::
  "golib \<Rightarrow> node \<Rightarrow> Options \<Rightarrow> path \<Rightarrow> path \<Rightarrow> string \<Rightarrow> node \<Rightarrow> wstate \<Rightarrow> error + wstate"
  where
  "WalkDir L fs opts baseDir root name rootInfo st =
     (case walkDir L fs opts baseDir root name rootInfo st of
        WErr e \<Rightarrow> Inl e
      | WSkipDir st' \<Rightarrow> Inr st'
      | WNil st' \<Rightarrow> Inr st')"

text \<open>\<open>filepath.Base\<close> of an absolute clean path.\<close>

definition Base :: "path \<Rightarrow> string" where
  "Base p = (if p = [] then ''/'' else last p)"

text \<open>The comparison of the final \<open>sort.Slice\<close> over the packages.\<close>

definition pkgLess :: "Package \<Rightarrow> Package \<Rightarrow> bool" where
  "pkgLess a b =
     (if pkg_ImportPath a \<noteq> pkg_ImportPath b then pkg_ImportPath a < pkg_ImportPath b
      else if pkg_Dir a \<noteq> pkg_Dir b then pkg_Dir a < pkg_Dir b
      else pkg_Name a < pkg_Name b)"

text \<open>
  \<open>Generate\<close>. The root is given as the absolute path that \<open>filepath.Abs\<close> returns, and
  \<open>now\<close> is the value of \<open>time.Now().UTC()\<close>. \<open>os.Stat\<close> fails when the path names
  nothing.
\<close>

definition analyse ::
  "golib \<Rightarrow> node \<Rightarrow> Options \<Rightarrow> path \<Rightarrow> node \<Rightarrow> path \<Rightarrow> string \<Rightarrow> cache \<Rightarrow> error + Package list"
  where
  "analyse L fs opts rootAbs rootInfo baseDir onlyFile c =
     (if onlyFile \<noteq> [] then
        (case parseDir L fs c baseDir onlyFile baseDir opts of
           (Inl e, c') \<Rightarrow> Inl e
         | (Inr pkgs, c') \<Rightarrow> Inr pkgs)
      else
        (case WalkDir L fs opts baseDir rootAbs (Base rootAbs) rootInfo ([], c) of
           Inl e \<Rightarrow> Inl e
         | Inr st \<Rightarrow> Inr (fst st)))"

definition Generate :: "golib \<Rightarrow> node \<Rightarrow> nat \<Rightarrow> path \<Rightarrow> Options \<Rightarrow> error + Model" where
  "Generate L fs now rootAbs opts0 =
     (let opts = withDefaults opts0
      in case lookup fs rootAbs of
           None \<Rightarrow> Inl (StatRoot rootAbs)
         | Some rootInfo \<Rightarrow>
             (let baseDir = (if isDirNode rootInfo then rootAbs else butlast rootAbs);
                  onlyFile = (if isDirNode rootInfo then [] else Base rootAbs)
              in case moduleForDir L fs Map.empty baseDir of
                   (Inl e, c) \<Rightarrow> Inl e
                 | (Inr rootModule, c) \<Rightarrow>
                     (case analyse L fs opts rootAbs rootInfo baseDir onlyFile c of
                        Inl e \<Rightarrow> Inl e
                      | Inr pkgs \<Rightarrow>
                          Inr \<lparr>GeneratedAt = now, Root = rootAbs, Module = rootModule,
                               Packages = sortSlice pkgLess pkgs\<rparr>)))"

section \<open>Notions used in the statements\<close>

text \<open>The identifiers that a file declares as names of struct fields.\<close>

definition specFieldNames :: "spec \<Rightarrow> string list" where
  "specFieldNames sp =
     (case sp of
        TypeSpec ts \<Rightarrow>
          (case tsType ts of StructType (Some fl) \<Rightarrow> concat (map fNames fl) | _ \<Rightarrow> [])
      | OtherSpec \<Rightarrow> [])"

definition declFieldNames :: "decl \<Rightarrow> string list" where
  "declFieldNames d =
     (case d of GenDecl doc tok specs \<Rightarrow> concat (map specFieldNames specs) | _ \<Rightarrow> [])"

definition fileFieldNames :: "ast_file \<Rightarrow> string list" where
  "fileFieldNames src = concat (map declFieldNames (fileDecls src))"

text \<open>Every field of every type of the package is not flagged embedded and has a name
  from \<open>N\<close>.\<close>

definition fieldsOk :: "string set \<Rightarrow> Package \<Rightarrow> bool" where
  "fieldsOk N pkg =
     (\<forall>t \<in> set (pkg_Types pkg). \<forall>f \<in> set (ty_Fields t). \<not> fld_Embedded f \<and> fld_Name f \<in> N)"

text \<open>The syntax trees of all files below a node of the file system.\<close>

fun parsedFiles :: "node \<Rightarrow> ast_file list"
  and parsedFilesIn :: "(string \<times> node) list \<Rightarrow> ast_file list" where
  "parsedFiles (FileNode sc (Parsed src)) = [src]"
| "parsedFiles (FileNode sc (ParseFailed e)) = []"
| "parsedFiles (DirNode es) = parsedFilesIn es"
| "parsedFiles (UnreadableDir e) = []"
| "parsedFilesIn [] = []"
| "parsedFilesIn ((name, n) # es) = parsedFiles n @ parsedFilesIn es"

text \<open>The key of the final sort of the packages, ordered lexicographically.\<close>

definition pkgKey :: "Package \<Rightarrow> string \<times> string \<times> string" where
  "pkgKey p = (pkg_ImportPath p, pkg_Dir p, pkg_Name p)"

text \<open>
  A package of the result comes from \<open>extractPackage\<close> and \<open>sortPackage\<close>, run on
  syntax trees of files of the file system.
\<close>

definition producedFrom :: "golib \<Rightarrow> node \<Rightarrow> Package \<Rightarrow> bool" where
  "producedFrom L fs p =
     (\<exists>c dir name pkg relBase c' q.
        extractPackage L fs c dir name pkg pkg pkg relBase = (Inr q, c') \<and>
        p = sortPackage q \<and> snd ` set pkg \<subseteq> set (parsedFiles fs))"

text \<open>All files of a map of packages.\<close>

definition allFiles :: "pkgmap \<Rightarrow> (path \<times> ast_file) set" where
  "allFiles ps = \<Union>(set ` snd ` set ps)"

text \<open>A property of the state holds in the result of a walk that does not fail.\<close>

definition wresInv :: "(wstate \<Rightarrow> bool) \<Rightarrow> wres \<Rightarrow> bool" where
  "wresInv I r = (case r of WErr e \<Rightarrow> True | WNil st \<Rightarrow> I st | WSkipDir st \<Rightarrow> I st)"

text \<open>The Field records that \<open>parseStructFields\<close> builds for one struct member.\<close>

definition namedFields :: "golib \<Rightarrow> field \<Rightarrow> Field list" where
  "namedFields L f =
     map (\<lambda>n. \<lparr>fld_Name = n, fld_Type = exprString L (fType f),
               fld_Tag = (case fTag f of None \<Rightarrow> [] | Some v \<Rightarrow> TrimBackquote v),
               fld_Embedded = False, fld_Exported = IsExported L n\<rparr>)
       (fNames f)"

text \<open>
  The invariant of \<open>typesByName\<close> in the first pass: a name is mapped to the last index
  of \<open>Types\<close> that holds a type of this name, and to nothing when there is none.
\<close>

definition tbnOk :: "xstate \<Rightarrow> bool" where
  "tbnOk st =
     (\<forall>n. case snd st n of
            None \<Rightarrow> n \<notin> set (map ty_Name (pkg_Types (fst st)))
          | Some i \<Rightarrow>
              i < length (pkg_Types (fst st)) \<and> ty_Name (pkg_Types (fst st) ! i) = n \<and>
              (\<forall>j. i < j \<and> j < length (pkg_Types (fst st)) \<longrightarrow>
                   ty_Name (pkg_Types (fst st) ! j) \<noteq> n))"

text \<open>
  The condition of the specification on a generated file, read as written: the first 20
  lines contain the marker phrase and contain the do-not-edit phrase.
\<close>

definition claimedGenerated :: "string list \<Rightarrow> bool" where
  "claimedGenerated ls =
     ((\<exists>l \<in> set (take 20 ls). Contains l ''Code generated'') \<and>
      (\<exists>l \<in> set (take 20 ls). Contains l ''DO NOT EDIT''))"

text \<open>
  The locator without its cache: the module declared in the nearest directory, from
  \<open>dir\<close> upwards, that holds a module-declaration file.
\<close>

function nearestModule :: "golib \<Rightarrow> node \<Rightarrow> path \<Rightarrow> error + Module option" where
  "nearestModule L fs dir =
     (if fileExists fs (dir @ [''go.mod'']) then
        (case readModulePath L fs (dir @ [''go.mod'']) of
           Inl e \<Rightarrow> Inl e
         | Inr modPath \<Rightarrow> Inr (Some \<lparr>mod_Path = modPath, mod_Dir = dir\<rparr>))
      else if butlast dir = dir then Inr None
      else nearestModule L fs (butlast dir))"
  by pat_completeness auto
termination
proof (relation "measure (\<lambda>(L, fs, dir). length dir)")
  show "wf (measure (\<lambda>(L, fs, dir). length dir))"
    by simp
next
  fix L :: golib and fs :: node and dir :: path
  assume "butlast dir \<noteq> dir"
  then have "dir \<noteq> []"
    by auto
  then show "((L, fs, butlast dir), (L, fs, dir)) \<in> measure (\<lambda>(L, fs, dir). length dir)"
    by simp
qed

declare nearestModule.simps [simp del]

text \<open>Every entry of the cache is what the locator would find.\<close>

definition cacheOk :: "golib \<Rightarrow> node \<Rightarrow> cache \<Rightarrow> bool" where
  "cacheOk L fs c = (\<forall>d m. c d = Some m \<longrightarrow> nearestModule L fs d = Inr m)"

text \<open>A line that \<open>readModulePath\<close> accepts, and a module-declaration file that it rejects.\<close>

definition moduleLine :: "golib \<Rightarrow> string \<Rightarrow> bool" where
  "moduleLine L text =
     (HasPrefix (TrimSpace L text) ''module '' \<or>
      HasPrefix (TrimSpace L text) (''module'' @ [CHR 0x09]))"

definition badModFile :: "golib \<Rightarrow> node \<Rightarrow> path \<Rightarrow> bool" where
  "badModFile L fs p =
     (case openScan fs p of
        Unopenable \<Rightarrow> True
      | Scanned ls latch \<Rightarrow> \<forall>t \<in> set ls. \<not> moduleLine L t)"

text \<open>\<open>take k dir\<close> is the nearest directory, from \<open>dir\<close> upwards, with a module-declaration
  file.\<close>

definition isNearest :: "node \<Rightarrow> path \<Rightarrow> nat \<Rightarrow> bool" where
  "isNearest fs dir k =
     (k \<le> length dir \<and> fileExists fs (take k dir @ [''go.mod'']) \<and>
      (\<forall>j. k < j \<and> j \<le> length dir \<longrightarrow> \<not> fileExists fs (take j dir @ [''go.mod''])))"

text \<open>
  The condition of the specification for an error of the locator, read as written: some
  directory from \<open>dir\<close> up to the root holds a module-declaration file that cannot be
  read or has no module-path line.
\<close>

definition claimedModuleError :: "golib \<Rightarrow> node \<Rightarrow> path \<Rightarrow> bool" where
  "claimedModuleError L fs dir =
     (\<exists>k \<in> set [0..<Suc (length dir)].
        fileExists fs (take k dir @ [''go.mod'']) \<and> badModFile L fs (take k dir @ [''go.mod'']))"

text \<open>
  A package was produced by \<open>parseDir\<close> on a directory reached from the root through
  entries \<open>ns\<close> (the first is the root itself, by its name \<open>r0\<close>), none of them excluded.
\<close>

definition walkedFrom ::
  "golib \<Rightarrow> node \<Rightarrow> Options \<Rightarrow> path \<Rightarrow> path \<Rightarrow> string \<Rightarrow> Package \<Rightarrow> bool" where
  "walkedFrom L fs opts baseDir root r0 q =
     (\<exists>ns c c' pkgs.
        ns \<noteq> [] \<and> hd ns = r0 \<and> set ns \<inter> set (ExcludeDirNames opts) = {} \<and>
        parseDir L fs c (root @ tl ns) [] baseDir opts = (Inr pkgs, c') \<and> q \<in> set pkgs)"

text \<open>
  The two passes of \<open>extractPackage\<close> in closed form: the types that the first pass
  records, in order, and the function declarations that the second pass visits, in
  order.
\<close>

definition specTypes :: "golib \<Rightarrow> string option \<Rightarrow> nat \<Rightarrow> spec \<Rightarrow> Type list" where
  "specTypes L doc k sp = (case sp of TypeSpec ts \<Rightarrow> [typeOfSpec L doc k ts] | OtherSpec \<Rightarrow> [])"

definition declTypes :: "golib \<Rightarrow> decl \<Rightarrow> Type list" where
  "declTypes L d =
     (case d of
        GenDecl doc tok specs \<Rightarrow>
          if tok \<noteq> TokTYPE then [] else concat (map (specTypes L doc (length specs)) specs)
      | _ \<Rightarrow> [])"

definition allTypes :: "golib \<Rightarrow> files \<Rightarrow> Type list" where
  "allTypes L fs1 = concat (map (\<lambda>(file, src). concat (map (declTypes L) (fileDecls src))) fs1)"

definition declFuncs :: "decl \<Rightarrow> func_decl list" where
  "declFuncs d = (case d of FuncDecl fn \<Rightarrow> [fn] | _ \<Rightarrow> [])"

definition allFuncs :: "files \<Rightarrow> func_decl list" where
  "allFuncs fs2 = concat (map (\<lambda>(file, src). concat (map declFuncs (fileDecls src))) fs2)"

text \<open>The package with more types at the end of \<open>Types\<close>.\<close>

definition addTypes :: "Type list \<Rightarrow> Package \<Rightarrow> Package" where
  "addTypes ts pkg = pkg\<lparr>pkg_Types := pkg_Types pkg @ ts\<rparr>"

text \<open>
  What the second pass computes for one function declaration: the base name of its
  receiver (empty without receiver), its Function record, and the name of the type it
  is bound to when \<open>N\<close> is the set of the names of the recorded types.
\<close>

definition baseNameOf :: "func_decl \<Rightarrow> string" where
  "baseNameOf fn =
     (case fdRecv fn of
        Some (r # rs) \<Rightarrow> (case fType r of None \<Rightarrow> [] | Some e \<Rightarrow> receiverBaseName e)
      | _ \<Rightarrow> [])"

definition fnModelOf :: "golib \<Rightarrow> func_decl \<Rightarrow> Function" where
  "fnModelOf L fn =
     (case fdRecv fn of
        Some (r # rs) \<Rightarrow> (funcModel L fn)\<lparr>fn_Receiver := exprString L (fType r)\<rparr>
      | _ \<Rightarrow> funcModel L fn)"

definition boundName :: "string set \<Rightarrow> func_decl \<Rightarrow> string option" where
  "boundName N fn =
     (if baseNameOf fn \<noteq> [] \<and> baseNameOf fn \<in> N then Some (baseNameOf fn) else None)"

text \<open>A type with the methods bound to it by the declarations \<open>fns\<close>, and the functions
  that \<open>fns\<close> leave in the free-function list.\<close>

definition withMethods :: "golib \<Rightarrow> string set \<Rightarrow> func_decl list \<Rightarrow> Type \<Rightarrow> Type" where
  "withMethods L N fns t =
     t\<lparr>ty_Methods := ty_Methods t @
         map (fnModelOf L) (filter (\<lambda>fn. boundName N fn = Some (ty_Name t)) fns)\<rparr>"

definition freeFuncs :: "golib \<Rightarrow> string set \<Rightarrow> func_decl list \<Rightarrow> Function list" where
  "freeFuncs L N fns = map (fnModelOf L) (filter (\<lambda>fn. boundName N fn = None) fns)"

text \<open>No two types of the package, no two of its free functions and no two methods of one
  of its types share a name.\<close>

definition namesUnique :: "Package \<Rightarrow> bool" where
  "namesUnique q =
     (distinct (map ty_Name (pkg_Types q)) \<and> distinct (map fn_Name (pkg_Functions q)) \<and>
      (\<forall>t \<in> set (pkg_Types q). distinct (map fn_Name (ty_Methods t))))"

text \<open>The package that \<open>extractPackage\<close> returns when the names of the types are distinct.\<close>

definition assembled ::
  "golib \<Rightarrow> Module option \<Rightarrow> path \<Rightarrow> string \<Rightarrow> path \<Rightarrow> files \<Rightarrow> files \<Rightarrow> files \<Rightarrow> Package" where
  "assembled L m dir name relBase fs0 fs1 fs2 =
     \<lparr>pkg_Name = name, pkg_ImportPath = importPath m dir, pkg_Dir = toRelPath relBase dir,
      pkg_Files = packageFiles relBase dir fs0,
      pkg_Types = map (withMethods L (ty_Name ` set (allTypes L fs1)) (allFuncs fs2)) (allTypes L fs1),
      pkg_Functions = freeFuncs L (ty_Name ` set (allTypes L fs1)) (allFuncs fs2)\<rparr>"

text \<open>
  Where the second pass puts a function declaration, given the names of the types that
  the first pass recorded, in order: the declaration binds to index \<open>i\<close> when its receiver
  base name is not empty and \<open>i\<close> is the last index that holds this name; it is unbound
  when the base name is empty or no recorded type has it. \<open>methodCount\<close> is the number of
  methods of a list of types.
\<close>

definition bindsTo :: "string list \<Rightarrow> func_decl \<Rightarrow> nat \<Rightarrow> bool" where
  "bindsTo names fn i =
     (baseNameOf fn \<noteq> [] \<and> i < length names \<and> names ! i = baseNameOf fn \<and>
      baseNameOf fn \<notin> set (drop (Suc i) names))"

definition unbound :: "string list \<Rightarrow> func_decl \<Rightarrow> bool" where
  "unbound names fn = (baseNameOf fn = [] \<or> baseNameOf fn \<notin> set names)"

definition methodCount :: "Type list \<Rightarrow> nat" where
  "methodCount ts = sum_list (map (\<lambda>t. length (ty_Methods t)) ts)"

text \<open>The members of a field list; a nil field list has none.\<close>

definition listOf :: "field_list \<Rightarrow> field list" where
  "listOf fl = (case fl of None \<Rightarrow> [] | Some xs \<Rightarrow> xs)"

section \<open>Examples\<close>

text \<open>
  An instance of the library parameters for the examples: it renders the receiver
  forms, takes a name as exported when its first byte is an ASCII capital, and trims
  ASCII white space.
\<close>

fun renderExpr :: "expr \<Rightarrow> string" where
  "renderExpr (Ident n) = n"
| "renderExpr (StarExpr x) = ''*'' @ renderExpr x"
| "renderExpr (ParenExpr x) = ''('' @ renderExpr x @ '')''"
| "renderExpr (IndexExpr x i) = renderExpr x @ ''['' @ renderExpr i @ '']''"
| "renderExpr _ = ''?''"

definition asciiSpace :: "char \<Rightarrow> bool" where
  "asciiSpace c = (c \<in> set [CHR '' '', CHR 0x09, CHR 0x0A, CHR 0x0B, CHR 0x0C, CHR 0x0D])"

definition asciiLib :: golib where
  "asciiLib =
     \<lparr>Fprint = (\<lambda>e. case e of None \<Rightarrow> [] | Some x \<Rightarrow> renderExpr x),
      IsExported = (\<lambda>s. case s of [] \<Rightarrow> False | c # cs \<Rightarrow> CHR ''A'' \<le> c \<and> c \<le> CHR ''Z''),
      TrimSpace = (\<lambda>s. rev (dropWhile asciiSpace (rev (dropWhile asciiSpace s))))\<rparr>"

text \<open>
  The file of the end-to-end scenario of the specification:
  \<^verbatim>\<open>package sample; type Box struct { Value int }; func (b *Box) Double() int\<close>.
\<close>

definition boxFile :: ast_file where
  "boxFile =
     \<lparr>filePackage = ''sample'',
      fileDecls =
        [GenDecl None TokTYPE
           [TypeSpec \<lparr>tsDoc = None, tsName = ''Box'', tsTypeParams = None, tsAssign = 0,
              tsType = StructType
                (Some [AstField None [''Value''] (Some (Ident ''int'')) None None])\<rparr>],
         FuncDecl \<lparr>fdDoc = None,
            fdRecv = Some [AstField None [''b''] (Some (StarExpr (Ident ''Box''))) None None],
            fdName = ''Double'', fdTypeParams = None, fdParams = Some [],
            fdResults = Some [AstField None [] (Some (Ident ''int'')) None None]\<rparr>]\<rparr>"

text \<open>A file \<^verbatim>\<open>package sample; // doc\<close> \<^verbatim>\<open>func init() {}\<close> with the given doc comment.\<close>

definition initFile :: "string \<Rightarrow> ast_file" where
  "initFile doc =
     \<lparr>filePackage = ''sample'',
      fileDecls =
        [FuncDecl \<lparr>fdDoc = Some doc, fdRecv = None, fdName = ''init'', fdTypeParams = None,
           fdParams = Some [], fdResults = None\<rparr>]\<rparr>"

definition goFile :: "ast_file \<Rightarrow> node" where
  "goFile src = FileNode (Scanned [''package sample''] None) (Parsed src)"

definition textFile :: "string list \<Rightarrow> node" where
  "textFile ls = FileNode (Scanned ls None) (ParseFailed \<lparr>notExist = False, message = ''expected package''\<rparr>)"

text \<open>
  A file system: \<open>/root\<close> holds the module declaration of \<open>example.com/m\<close>,
  \<open>/root/sub\<close> and \<open>/root/vendor\<close> hold the file above, and \<open>/root/empty\<close> holds only a
  test file.
\<close>

definition exampleFs :: node where
  "exampleFs =
     DirNode
       [(''root'',
         DirNode
           [(''empty'', DirNode [(''box_test.go'', goFile boxFile)]),
            (''go.mod'', textFile [''module example.com/m'', [], ''go 1.21'']),
            (''sub'', DirNode [(''box.go'', goFile boxFile)]),
            (''vendor'', DirNode [(''box.go'', goFile boxFile)])])]"

definition exampleOpts :: Options where
  "exampleOpts =
     \<lparr>IncludeTests = False, IncludeGenerated = False, ExcludeDirNames = [], Indent = []\<rparr>"

definition boxPackage :: "string \<Rightarrow> string \<Rightarrow> string \<Rightarrow> Package" where
  "boxPackage ipath dir file =
     \<lparr>pkg_Name = ''sample'', pkg_ImportPath = ipath, pkg_Dir = dir, pkg_Files = [file],
      pkg_Types =
        [\<lparr>ty_Name = ''Box'', ty_Kind = TypeKindStruct, ty_Exported = True, ty_Doc = [],
          ty_TypeParams = [],
          ty_Fields =
            [\<lparr>fld_Name = ''Value'', fld_Type = ''int'', fld_Tag = [], fld_Embedded = False,
              fld_Exported = True\<rparr>],
          ty_Embedded = [],
          ty_Methods =
            [\<lparr>fn_Name = ''Double'', fn_Exported = True, fn_Doc = [], fn_Receiver = ''*Box'',
              fn_TypeParams = [], fn_Params = [],
              fn_Results = [\<lparr>par_Name = [], par_Type = ''int''\<rparr>],
              fn_Variadic = False\<rparr>]\<rparr>],
      pkg_Functions = []\<rparr>"

definition exampleModule :: Module where
  "exampleModule = \<lparr>mod_Path = ''example.com/m'', mod_Dir = [''root'']\<rparr>"

text \<open>A directory with one file whose header has the two phrases on two lines, and one
  with one file whose header has them on one line.\<close>

definition splitHeaderFs :: node where
  "splitHeaderFs =
     DirNode [(''zz.go'',
       FileNode (Scanned [''// Code generated by protoc.'', ''// DO NOT EDIT.'', ''package sample''] None)
         (Parsed boxFile))]"

definition headerFs :: node where
  "headerFs =
     DirNode [(''zz.go'',
       FileNode (Scanned [''// Code generated by protoc. DO NOT EDIT.'', ''package sample''] None)
         (Parsed boxFile))]"

text \<open>A module with a module-path line inside a directory whose own module-declaration
  file has none.\<close>

definition nestedFs :: node where
  "nestedFs =
     DirNode
       [(''a'',
         DirNode
           [(''b'', DirNode [(''go.mod'', textFile [''module example.com/inner''])]),
            (''go.mod'', textFile [''go 1.21''])])]"

text \<open>Two files of the package \<open>sample\<close> in \<open>/root/sub\<close>, each with its own \<^verbatim>\<open>func init()\<close>.\<close>

definition initFiles :: files where
  "initFiles =
     [([''root'', ''sub'', ''a.go''], initFile ''first''),
      ([''root'', ''sub'', ''b.go''], initFile ''second'')]"

text \<open>Two files of the package \<open>sample\<close> in \<open>/root/sub\<close> with different declarations.\<close>

definition mixedFiles :: files where
  "mixedFiles =
     [([''root'', ''sub'', ''box.go''], boxFile),
      ([''root'', ''sub'', ''init.go''], initFile ''first'')]"

text \<open>
  A file of the package \<open>sample\<close> that declares methods with the receiver forms
  \<open>Box\<close>, \<open>*Box\<close>, \<open>*Box[T]\<close>, \<open>Box[K, V]\<close> and a parenthesized \<open>*Box\<close>, a method on the
  undeclared type
  \<open>Missing\<close>, a function without receiver, a method whose receiver is a selector
  expression, and last the struct type \<open>Box\<close>.
\<close>

definition methodDecl :: "string \<Rightarrow> expr \<Rightarrow> decl" where
  "methodDecl name recv =
     FuncDecl \<lparr>fdDoc = None, fdRecv = Some [AstField None [''b''] (Some recv) None None],
        fdName = name, fdTypeParams = None, fdParams = Some [], fdResults = None\<rparr>"

definition receiverFile :: ast_file where
  "receiverFile =
     \<lparr>filePackage = ''sample'',
      fileDecls =
        [methodDecl ''Plain'' (Ident ''Box''),
         methodDecl ''Pointer'' (StarExpr (Ident ''Box'')),
         methodDecl ''Lost'' (Ident ''Missing''),
         methodDecl ''Generic'' (StarExpr (IndexExpr (Ident ''Box'') (Ident ''T''))),
         FuncDecl \<lparr>fdDoc = None, fdRecv = None, fdName = ''Free'', fdTypeParams = None,
            fdParams = Some [], fdResults = None\<rparr>,
         methodDecl ''Pair'' (IndexListExpr (Ident ''Box'') [Ident ''K'', Ident ''V'']),
         methodDecl ''Paren'' (ParenExpr (StarExpr (Ident ''Box''))),
         methodDecl ''Odd'' (OtherExpr ''pkg.Sel''),
         GenDecl None TokTYPE
           [TypeSpec \<lparr>tsDoc = None, tsName = ''Box'', tsTypeParams = None, tsAssign = 0,
              tsType = StructType (Some [])\<rparr>]]\<rparr>"

definition receiverFiles :: files where
  "receiverFiles = [([''root'', ''sub'', ''recv.go''], receiverFile)]"

text \<open>
  A module \<open>example.com/p\<close> in \<open>/proj\<close> with three packages. \<open>/proj/lib\<close> declares, in
  \<open>point.go\<close>, \<^verbatim>\<open>type Point struct { Y, X int }\<close> and, in \<open>shape.go\<close>, the interface
  \<^verbatim>\<open>Shape { Perimeter(); Area(); Stringer; Named }\<close>, the struct
  \<^verbatim>\<open>Rect { Width, Height int; Point; Label string; *Base }\<close>, the methods \<open>Scale\<close> and
  \<open>Area\<close> of \<open>Rect\<close> and the functions \<open>New\<close> and \<open>Describe\<close>; \<open>/proj/lib/core\<close>
  declares \<^verbatim>\<open>type Base struct { ID int }\<close> and \<open>/proj/lib-x\<close> the function \<open>main\<close>. The walk
  meets the directories in the order \<open>lib\<close>, \<open>lib/core\<close>, \<open>lib-x\<close>.
\<close>

definition freeFunc :: "string \<Rightarrow> decl" where
  "freeFunc name =
     FuncDecl \<lparr>fdDoc = None, fdRecv = None, fdName = name, fdTypeParams = None,
        fdParams = Some [], fdResults = None\<rparr>"

definition member :: "string list \<Rightarrow> expr \<Rightarrow> field" where
  "member names typ = AstField None names (Some typ) None None"

definition typeDecl :: "string \<Rightarrow> expr \<Rightarrow> decl" where
  "typeDecl name typ =
     GenDecl None TokTYPE
       [TypeSpec \<lparr>tsDoc = None, tsName = name, tsTypeParams = None, tsAssign = 0, tsType = typ\<rparr>]"

definition shapeFile :: ast_file where
  "shapeFile =
     \<lparr>filePackage = ''lib'',
      fileDecls =
        [typeDecl ''Shape''
           (InterfaceType
              (Some [member [''Perimeter''] (FuncType None (Some []) None),
                     member [''Area''] (FuncType None (Some []) None),
                     member [] (Ident ''Stringer''),
                     member [] (Ident ''Named'')])),
         typeDecl ''Rect''
           (StructType
              (Some [member [''Width'', ''Height''] (Ident ''int''),
                     member [] (Ident ''Point''),
                     member [''Label''] (Ident ''string''),
                     member [] (StarExpr (Ident ''Base''))])),
         methodDecl ''Scale'' (StarExpr (Ident ''Rect'')),
         methodDecl ''Area'' (Ident ''Rect''),
         freeFunc ''New'',
         freeFunc ''Describe'']\<rparr>"

definition pointFile :: ast_file where
  "pointFile =
     \<lparr>filePackage = ''lib'',
      fileDecls = [typeDecl ''Point'' (StructType (Some [member [''Y'', ''X''] (Ident ''int'')]))]\<rparr>"

definition coreFile :: ast_file where
  "coreFile =
     \<lparr>filePackage = ''core'',
      fileDecls = [typeDecl ''Base'' (StructType (Some [member [''ID''] (Ident ''int'')]))]\<rparr>"

definition toolFile :: ast_file where
  "toolFile = \<lparr>filePackage = ''main'', fileDecls = [freeFunc ''main'']\<rparr>"

definition libFs :: node where
  "libFs =
     DirNode
       [(''proj'',
         DirNode
           [(''go.mod'', textFile [''module example.com/p'']),
            (''lib'',
             DirNode
               [(''core'', DirNode [(''core.go'', goFile coreFile)]),
                (''point.go'', goFile pointFile),
                (''shape.go'', goFile shapeFile)]),
            (''lib-x'', DirNode [(''tool.go'', goFile toolFile)])])]"

text \<open>A module in \<open>/root\<close> whose directory \<open>/root/vendor/lib\<close> holds the file of the end-to-end
  scenario.\<close>

definition vendorFs :: node where
  "vendorFs =
     DirNode
       [(''root'',
         DirNode
           [(''go.mod'', textFile [''module example.com/m'']),
            (''vendor'', DirNode [(''lib'', DirNode [(''box.go'', goFile boxFile)])])])]"

section \<open>Properties\<close>



subsection \<open>Sorting\<close>

lemma mset_insertBack: "mset (insertBack lt x rs) = add_mset x (mset rs)"
  by (induction rs) auto

lemma mset_foldl_insertBack:
  "mset (foldl (\<lambda>rs x. insertBack lt x rs) acc xs) = mset acc + mset xs"
  by (induction xs arbitrary: acc) (auto simp: mset_insertBack)

lemma mset_sortSlice: "mset (sortSlice lt xs) = mset xs"
  by (simp add: sortSlice_def mset_foldl_insertBack)

lemma set_sortSlice: "set (sortSlice lt xs) = set xs"
  using mset_sortSlice [of lt xs] by (metis set_mset_mset)

lemma length_sortSlice: "length (sortSlice lt xs) = length xs"
  using mset_sortSlice [of lt xs] by (metis size_mset)

lemma set_insertBack: "set (insertBack lt x rs) = insert x (set rs)"
  using mset_insertBack [of lt x rs] by (metis set_mset_mset set_mset_add_mset_insert)

lemma desc_insertBack:
  fixes k :: "'a \<Rightarrow> 'b::linorder"
  assumes "sorted_wrt (\<lambda>a b. k b \<le> k a) rs"
  shows "sorted_wrt (\<lambda>a b. k b \<le> k a) (insertBack (\<lambda>a b. k a < k b) x rs)"
  using assms
proof (induction rs)
  case Nil
  then show ?case by simp
next
  case (Cons y rs)
  then show ?case
    by (auto simp: set_insertBack)
qed

lemma desc_foldl_insertBack:
  fixes k :: "'a \<Rightarrow> 'b::linorder"
  assumes "sorted_wrt (\<lambda>a b. k b \<le> k a) acc"
  shows "sorted_wrt (\<lambda>a b. k b \<le> k a) (foldl (\<lambda>rs x. insertBack (\<lambda>a b. k a < k b) x rs) acc xs)"
  using assms by (induction xs arbitrary: acc) (auto intro: desc_insertBack)

lemma sorted_sortSlice_key:
  fixes k :: "'a \<Rightarrow> 'b::linorder"
  shows "sorted (map k (sortSlice (\<lambda>a b. k a < k b) xs))"
proof -
  have "sorted_wrt (\<lambda>a b. k b \<le> k a) (foldl (\<lambda>rs x. insertBack (\<lambda>a b. k a < k b) x rs) [] xs)"
    by (rule desc_foldl_insertBack) simp
  then show ?thesis
    by (simp add: sortSlice_def sorted_wrt_rev sorted_wrt_map rev_map [symmetric])
qed

lemma sorted_sortStrings: "sorted (sortStrings xs)"
  using sorted_sortSlice_key [of "\<lambda>s. s" xs] by (simp add: sortStrings_def)

lemma pkgLess_key: "pkgLess a b = (pkgKey a < pkgKey b)"
  by (auto simp: pkgLess_def pkgKey_def less_prod_def)

subsection \<open>Struct fields\<close>

lemma structFieldsLoop_fst:
  "fst (structFieldsLoop L fl out emb) =
     out @ concat (map (\<lambda>f. map (\<lambda>n. \<lparr>fld_Name = n, fld_Type = exprString L (fType f),
            fld_Tag = (case fTag f of None \<Rightarrow> [] | Some v \<Rightarrow> TrimBackquote v),
            fld_Embedded = False, fld_Exported = IsExported L n\<rparr>) (fNames f)) fl)"
  by (induction fl arbitrary: out emb) (auto simp: Let_def)

lemma structFieldsLoop_snd:
  "snd (structFieldsLoop L fl out emb) =
     emb @ map (\<lambda>f. exprString L (fType f)) (filter (\<lambda>f. fNames f = []) fl)"
  by (induction fl arbitrary: out emb) (auto simp: Let_def)

lemma parseStructFields_field:
  assumes "f \<in> set (fst (parseStructFields L st))"
  shows "\<not> fld_Embedded f \<and> (\<exists>fl. st = Some fl \<and> fld_Name f \<in> set (concat (map fNames fl)))"
  using assms by (cases st) (auto simp: parseStructFields_def structFieldsLoop_fst)

lemma typeOfSpec_field:
  assumes "f \<in> set (ty_Fields (typeOfSpec L doc n ts))"
  shows "\<not> fld_Embedded f \<and> fld_Name f \<in> set (specFieldNames (TypeSpec ts))"
proof (cases "tsType ts")
  case (StructType st)
  with assms have "f \<in> set (fst (parseStructFields L st))"
    by (simp add: typeOfSpec_def Let_def)
  from parseStructFields_field [OF this] StructType show ?thesis
    by (auto simp: specFieldNames_def)
qed (use assms in \<open>simp_all add: typeOfSpec_def Let_def\<close>)

lemma fieldsOk_mono: "fieldsOk N pkg \<Longrightarrow> N \<subseteq> N' \<Longrightarrow> fieldsOk N' pkg"
  by (auto simp: fieldsOk_def)

lemma pass1Spec_fieldsOk:
  assumes "fieldsOk N (fst st)" "set (specFieldNames sp) \<subseteq> N"
  shows "fieldsOk N (fst (pass1Spec L doc n sp st))"
proof (cases sp)
  case (TypeSpec ts)
  then show ?thesis
    using assms typeOfSpec_field [of _ L doc n ts]
    by (auto simp: pass1Spec_def Let_def fieldsOk_def)
next
  case OtherSpec
  then show ?thesis using assms by (simp add: pass1Spec_def)
qed

lemma pass1Specs_fieldsOk:
  assumes "fieldsOk N (fst st)" "set (concat (map specFieldNames specs)) \<subseteq> N"
  shows "fieldsOk N (fst (fold (pass1Spec L doc n) specs st))"
  using assms by (induction specs arbitrary: st) (simp_all add: pass1Spec_fieldsOk)

lemma pass1Decl_fieldsOk:
  assumes "fieldsOk N (fst st)" "set (declFieldNames d) \<subseteq> N"
  shows "fieldsOk N (fst (pass1Decl L d st))"
  using assms
  by (cases d) (auto simp: pass1Decl_def declFieldNames_def intro!: pass1Specs_fieldsOk)

lemma pass1Decls_fieldsOk:
  assumes "fieldsOk N (fst st)" "set (concat (map declFieldNames ds)) \<subseteq> N"
  shows "fieldsOk N (fst (fold (pass1Decl L) ds st))"
  using assms by (induction ds arbitrary: st) (simp_all add: pass1Decl_fieldsOk)

lemma pass1_fieldsOk:
  assumes "fieldsOk N (fst st)" "\<forall>src \<in> snd ` set fs1. set (fileFieldNames src) \<subseteq> N"
  shows "fieldsOk N (fst (pass1 L fs1 st))"
  using assms unfolding pass1_def
proof (induction fs1 arbitrary: st)
  case Nil
  then show ?case by simp
next
  case (Cons a fs1)
  obtain fname src where a: "a = (fname, src)" by (cases a)
  have "fieldsOk N (fst (fold (pass1Decl L) (fileDecls src) st))"
    using Cons.prems a by (intro pass1Decls_fieldsOk) (auto simp: fileFieldNames_def)
  moreover have "\<forall>src \<in> snd ` set fs1. set (fileFieldNames src) \<subseteq> N"
    using Cons.prems(2) by simp
  ultimately have "fieldsOk N (fst (fold (\<lambda>(file, src). fold (pass1Decl L) (fileDecls src)) fs1
      (fold (pass1Decl L) (fileDecls src) st)))"
    by (rule Cons.IH)
  then show ?case
    by (simp add: a)
qed

lemma appendMethod_fieldsOk: "fieldsOk N pkg \<Longrightarrow> fieldsOk N (appendMethod idx fn pkg)"
proof (cases "idx < length (pkg_Types pkg)")
  case True
  assume ok: "fieldsOk N pkg"
  show ?thesis
    unfolding fieldsOk_def appendMethod_def
  proof (intro ballI)
    fix t f
    assume t: "t \<in> set (pkg_Types (pkg\<lparr>pkg_Types := (pkg_Types pkg)
       [idx := (pkg_Types pkg ! idx)\<lparr>ty_Methods := ty_Methods (pkg_Types pkg ! idx) @ [fn]\<rparr>]\<rparr>))"
      and f: "f \<in> set (ty_Fields t)"
    from t have "t \<in> set (pkg_Types pkg) \<or>
        t = (pkg_Types pkg ! idx)\<lparr>ty_Methods := ty_Methods (pkg_Types pkg ! idx) @ [fn]\<rparr>"
      using set_update_subset_insert [of "pkg_Types pkg" idx] by auto
    then obtain t' where "t' \<in> set (pkg_Types pkg)" "ty_Fields t = ty_Fields t'"
    proof
      assume "t \<in> set (pkg_Types pkg)"
      then show ?thesis using that by blast
    next
      assume "t = (pkg_Types pkg ! idx)\<lparr>ty_Methods := ty_Methods (pkg_Types pkg ! idx) @ [fn]\<rparr>"
      then have "ty_Fields t = ty_Fields (pkg_Types pkg ! idx)" by simp
      moreover have "pkg_Types pkg ! idx \<in> set (pkg_Types pkg)" using True by simp
      ultimately show ?thesis using that by blast
    qed
    with ok f show "\<not> fld_Embedded f \<and> fld_Name f \<in> N"
      by (auto simp: fieldsOk_def)
  qed
next
  case False
  assume "fieldsOk N pkg"
  with False show ?thesis
    by (simp add: fieldsOk_def appendMethod_def list_update_beyond)
qed

lemma appendFunction_fieldsOk: "fieldsOk N pkg \<Longrightarrow> fieldsOk N (appendFunction fn pkg)"
  by (simp add: fieldsOk_def appendFunction_def)

lemma pass2Func_fieldsOk: "fieldsOk N pkg \<Longrightarrow> fieldsOk N (pass2Func L tbn fn pkg)"
  by (auto simp: pass2Func_def Let_def appendFunction_fieldsOk appendMethod_fieldsOk
      split: option.splits list.splits)

lemma pass2Decl_fieldsOk: "fieldsOk N pkg \<Longrightarrow> fieldsOk N (pass2Decl L tbn d pkg)"
  by (cases d) (auto simp: pass2Decl_def pass2Func_fieldsOk)

lemma pass2Decls_fieldsOk: "fieldsOk N pkg \<Longrightarrow> fieldsOk N (fold (pass2Decl L tbn) ds pkg)"
  by (induction ds arbitrary: pkg) (auto simp: pass2Decl_fieldsOk)

lemma pass2_fieldsOk: "fieldsOk N pkg \<Longrightarrow> fieldsOk N (pass2 L tbn fs2 pkg)"
  unfolding pass2_def
  by (induction fs2 arbitrary: pkg) (auto simp: pass2Decls_fieldsOk)

lemma sortPackage_fieldsOk: "fieldsOk N pkg \<Longrightarrow> fieldsOk N (sortPackage pkg)"
  by (auto simp: fieldsOk_def sortPackage_def sortType_def set_sortSlice)

lemma extractPackage_fieldsOk:
  assumes "extractPackage L fs c dir name fs0 fs1 fs2 relBase = (Inr q, c')"
    and "\<forall>src \<in> snd ` set fs1. set (fileFieldNames src) \<subseteq> N"
  shows "fieldsOk N q"
proof -
  obtain m where q: "q = pass2 L (snd (pass1 L fs1 (\<lparr>pkg_Name = name, pkg_ImportPath = importPath m dir,
      pkg_Dir = toRelPath relBase dir, pkg_Files = packageFiles relBase dir fs0,
      pkg_Types = [], pkg_Functions = []\<rparr>, Map.empty))) fs2
       (fst (pass1 L fs1 (\<lparr>pkg_Name = name, pkg_ImportPath = importPath m dir,
      pkg_Dir = toRelPath relBase dir, pkg_Files = packageFiles relBase dir fs0,
      pkg_Types = [], pkg_Functions = []\<rparr>, Map.empty)))"
    using assms(1) by (auto simp: extractPackage_def Let_def split: prod.splits sum.splits)
  show ?thesis
    unfolding q
    by (intro pass2_fieldsOk pass1_fieldsOk assms(2)) (simp add: fieldsOk_def)
qed

subsection \<open>Where the packages of a run come from\<close>

lemma allFiles_simps [simp]:
  "allFiles [] = {}"
  "allFiles ((n, fl) # ps) = set fl \<union> allFiles ps"
  by (simp_all add: allFiles_def)

lemma allFiles_addFile: "allFiles (addFile name kv ps) = insert kv (allFiles ps)"
  by (induction ps) (auto split: if_splits)

lemma allFiles_member: "(n, fl) \<in> set ps \<Longrightarrow> set fl \<subseteq> allFiles ps"
  by (auto simp: allFiles_def)

lemma parseEntries_files:
  "snd ` allFiles (fst (parseEntries dir flt es acc))
     \<subseteq> set (parsedFilesIn es) \<union> snd ` allFiles (fst acc)"
proof (induction es arbitrary: acc)
  case Nil
  then show ?case by simp
next
  case (Cons a es)
  obtain name nd where a: "a = (name, nd)" by (cases a)
  obtain pkgs first where acc: "acc = (pkgs, first)" by (cases acc)
  show ?case
  proof (cases nd)
    case (FileNode sc pr)
    show ?thesis
    proof (cases "HasSuffix name ''.go'' \<and> flt name")
      case True
      show ?thesis
      proof (cases pr)
        case (Parsed src)
        have eq: "parseEntries dir flt (a # es) acc =
            parseEntries dir flt es (addFile (filePackage src) (dir @ [name], src) pkgs, first)"
          using True by (simp add: a acc FileNode Parsed)
        have pf: "parsedFilesIn (a # es) = src # parsedFilesIn es"
          by (simp add: a FileNode Parsed)
        show ?thesis
          unfolding eq pf
          using Cons.IH [of "(addFile (filePackage src) (dir @ [name], src) pkgs, first)"]
          by (auto simp: allFiles_addFile acc)
      next
        case (ParseFailed e)
        have eq: "parseEntries dir flt (a # es) acc =
            parseEntries dir flt es (pkgs, if first = None then Some e else first)"
          using True by (simp add: a acc FileNode ParseFailed)
        have pf: "parsedFilesIn (a # es) = parsedFilesIn es"
          by (simp add: a FileNode ParseFailed)
        show ?thesis
          unfolding eq pf
          using Cons.IH [of "(pkgs, if first = None then Some e else first)"]
          by (auto simp: acc)
      qed
    next
      case False
      then have eq: "parseEntries dir flt (a # es) acc = parseEntries dir flt es acc"
        by (auto simp: a acc FileNode)
      show ?thesis
        unfolding eq using Cons.IH [of acc] by (auto simp: a)
    qed
  next
    case (DirNode x2)
    then have eq: "parseEntries dir flt (a # es) acc = parseEntries dir flt es acc"
      by (simp add: a acc)
    show ?thesis
      unfolding eq using Cons.IH [of acc] by (auto simp: a)
  next
    case (UnreadableDir x3)
    then have eq: "parseEntries dir flt (a # es) acc = parseEntries dir flt es acc"
      by (simp add: a acc)
    show ?thesis
      unfolding eq using Cons.IH [of acc] by (auto simp: a)
  qed
qed

lemma lookup_parsedFiles:
  "lookup n p = Some n' \<Longrightarrow> set (parsedFiles n') \<subseteq> set (parsedFiles n)"
  "lookupIn es x p = Some n' \<Longrightarrow> set (parsedFiles n') \<subseteq> set (parsedFilesIn es)"
  by (induction n p and es x p rule: lookup_lookupIn.induct) (auto split: if_splits)

lemma ParseDir_files:
  assumes "(n, fl) \<in> set (fst (ParseDir fs dir flt))"
  shows "snd ` set fl \<subseteq> set (parsedFiles fs)"
proof (cases "lookup fs dir")
  case None
  with assms show ?thesis by (simp add: ParseDir_def)
next
  case (Some nd)
  show ?thesis
  proof (cases nd)
    case (DirNode es)
    with assms Some have "(n, fl) \<in> set (fst (parseEntries dir flt es ([], None)))"
      by (simp add: ParseDir_def)
    from allFiles_member [OF this] parseEntries_files [of dir flt es "([], None)"]
    have "snd ` set fl \<subseteq> set (parsedFilesIn es)"
      by auto
    with lookup_parsedFiles(1) [OF Some] DirNode show ?thesis by auto
  qed (use assms Some in \<open>simp_all add: ParseDir_def\<close>)
qed

lemma extractAll_produced:
  assumes "extractAll L fs dir relBase ps out c = (Inr pkgs, c')"
    and "\<forall>p \<in> set out. producedFrom L fs p"
    and "\<forall>(n, fl) \<in> set ps. snd ` set fl \<subseteq> set (parsedFiles fs)"
  shows "\<forall>p \<in> set pkgs. producedFrom L fs p"
  using assms
proof (induction L fs dir relBase ps out c rule: extractAll.induct)
  case (1 L fs dir relBase out c)
  then show ?case by simp
next
  case (2 L fs dir relBase pkgName pkg ps out c)
  from 2(2) obtain q c1 where
    ex: "extractPackage L fs c dir pkgName pkg pkg pkg relBase = (Inr q, c1)"
    and rest: "extractAll L fs dir relBase ps (out @ [sortPackage q]) c1 = (Inr pkgs, c')"
    by (auto split: prod.splits sum.splits)
  have "producedFrom L fs (sortPackage q)"
    unfolding producedFrom_def using ex 2(4) by fastforce
  with 2(3) have "\<forall>p \<in> set (out @ [sortPackage q]). producedFrom L fs p"
    by simp
  moreover have "\<forall>(n, fl) \<in> set ps. snd ` set fl \<subseteq> set (parsedFiles fs)"
    using 2(4) by simp
  ultimately show ?case
    using 2(1) [OF ex [symmetric] refl rest] by blast
qed

lemma parseDir_produced:
  assumes "parseDir L fs c dir onlyFile relBase opts = (Inr pkgs, c')"
  shows "\<forall>p \<in> set pkgs. producedFrom L fs p"
proof -
  obtain parsed first where pd: "ParseDir fs dir (fileFilter fs dir onlyFile opts) = (parsed, first)"
    by (cases "ParseDir fs dir (fileFilter fs dir onlyFile opts)")
  with assms have ea: "extractAll L fs dir relBase parsed [] c = (Inr pkgs, c')"
    by (auto simp: parseDir_def split: option.splits if_splits)
  have "\<forall>(n, fl) \<in> set parsed. snd ` set fl \<subseteq> set (parsedFiles fs)"
    using ParseDir_files [of _ _ fs dir "fileFilter fs dir onlyFile opts"] pd by auto
  with extractAll_produced [OF ea] show ?thesis by simp
qed

lemma walkFn_inv:
  assumes "walkFn L fs opts baseDir p name isDir walkErr st = CbNil st'"
    and "\<forall>q \<in> set (fst st). producedFrom L fs q"
  shows "\<forall>q \<in> set (fst st'). producedFrom L fs q"
proof -
  obtain r c1 where pd: "parseDir L fs (snd st) p [] baseDir opts = (r, c1)"
    by (cases "parseDir L fs (snd st) p [] baseDir opts")
  show ?thesis
  proof (cases r)
    case (Inl e)
    with assms pd show ?thesis
      by (auto simp: walkFn_def split: option.splits if_splits)
  next
    case (Inr parsed)
    with parseDir_produced [of L fs "snd st" p "[]" baseDir opts parsed c1] pd
    have "\<forall>q \<in> set parsed. producedFrom L fs q" by simp
    with assms pd Inr show ?thesis
      by (auto simp: walkFn_def split: option.splits if_splits)
  qed
qed

lemma walk_inv:
  "(\<And>p name isDir walkErr st st'.
      walkFn L fs opts baseDir p name isDir walkErr st = CbNil st' \<Longrightarrow> I st \<Longrightarrow> I st') \<Longrightarrow>
    I st \<Longrightarrow> wresInv I (walkDir L fs opts baseDir p name n st)"
  "(\<And>p name isDir walkErr st st'.
      walkFn L fs opts baseDir p name isDir walkErr st = CbNil st' \<Longrightarrow> I st \<Longrightarrow> I st') \<Longrightarrow>
    I st \<Longrightarrow> wresInv I (walkEntries L fs opts baseDir p es st)"
proof (induction L fs opts baseDir p name n st and L fs opts baseDir p es st
    rule: walkDir_walkEntries.induct)
  case (1 L fs opts baseDir p name sc pr st)
  note step = "1.prems"(1) and inv = "1.prems"(2)
  show ?case
  proof (cases "walkFn L fs opts baseDir p name False None st")
    case (CbNil st')
    with step [OF CbNil inv] show ?thesis by (simp add: wresInv_def)
  qed (use inv in \<open>simp_all add: wresInv_def\<close>)
next
  case (2 L fs opts baseDir p name e st)
  note step = "2.prems"(1) and inv = "2.prems"(2)
  show ?case
  proof (cases "walkFn L fs opts baseDir p name True None st")
    case (CbNil st')
    note st' = step [OF CbNil inv]
    show ?thesis
    proof (cases "walkFn L fs opts baseDir p name True (Some e) st'")
      case c2: (CbNil st'')
      with step [OF c2 st'] CbNil show ?thesis by (simp add: wresInv_def)
    qed (use CbNil st' in \<open>simp_all add: wresInv_def\<close>)
  qed (use inv in \<open>simp_all add: wresInv_def\<close>)
next
  case (3 L fs opts baseDir p name es st)
  note step = "3.prems"(1) and inv = "3.prems"(2)
  show ?case
  proof (cases "walkFn L fs opts baseDir p name True None st")
    case (CbNil st')
    with "3.IH" [OF CbNil step step [OF CbNil inv]] show ?thesis by simp
  qed (use inv in \<open>simp_all add: wresInv_def\<close>)
next
  case (4 L fs opts baseDir p st)
  then show ?case by (simp add: wresInv_def)
next
  case (5 L fs opts baseDir p name n es st)
  note step = "5.prems"(1) and inv = "5.prems"(2)
  show ?case
  proof (cases "walkDir L fs opts baseDir (p @ [name]) name n st")
    case (WNil st')
    with "5.IH"(1) [OF step inv] have "I st'" by (simp add: wresInv_def)
    from "5.IH"(2) [OF WNil step this] WNil show ?thesis by simp
  next
    case (WSkipDir st')
    with "5.IH"(1) [OF step inv] show ?thesis by (simp add: wresInv_def)
  next
    case (WErr e)
    then show ?thesis by (simp add: wresInv_def)
  qed
qed

lemma WalkDir_inv:
  assumes "\<And>p name isDir walkErr st st'.
      walkFn L fs opts baseDir p name isDir walkErr st = CbNil st' \<Longrightarrow> I st \<Longrightarrow> I st'"
    and "I st" and "WalkDir L fs opts baseDir p name n st = Inr st'"
  shows "I st'"
  using walk_inv(1) [of L fs opts baseDir I st p name n, OF assms(1,2)] assms(3)
  by (auto simp: WalkDir_def wresInv_def split: wres.splits)

lemma analyse_produced:
  assumes "analyse L fs opts rootAbs rootInfo baseDir onlyFile c = Inr pkgs"
  shows "\<forall>p \<in> set pkgs. producedFrom L fs p"
proof (cases "onlyFile \<noteq> []")
  case True
  with assms obtain c' where "parseDir L fs c baseDir onlyFile baseDir opts = (Inr pkgs, c')"
    by (auto simp: analyse_def split: prod.splits sum.splits)
  then show ?thesis by (rule parseDir_produced)
next
  case False
  with assms obtain c' where
    w: "WalkDir L fs opts baseDir rootAbs (Base rootAbs) rootInfo ([], c) = Inr (pkgs, c')"
    by (auto simp: analyse_def split: sum.splits)
  have "\<forall>q \<in> set (fst (pkgs, c')). producedFrom L fs q"
    by (rule WalkDir_inv [where I = "\<lambda>st. \<forall>q \<in> set (fst st). producedFrom L fs q", OF _ _ w])
      (auto dest: walkFn_inv)
  then show ?thesis by simp
qed

lemma Generate_packages:
  assumes "Generate L fs now rootAbs opts = Inr m"
  shows "\<exists>pkgs. Packages m = sortSlice pkgLess pkgs \<and> (\<forall>p \<in> set pkgs. producedFrom L fs p)"
proof -
  from assms obtain rootInfo baseDir onlyFile c pkgs where
    "analyse L fs (withDefaults opts) rootAbs rootInfo baseDir onlyFile c = Inr pkgs"
    and "Packages m = sortSlice pkgLess pkgs"
    by (auto simp: Generate_def Let_def split: option.splits prod.splits sum.splits)
  with analyse_produced show ?thesis by blast
qed

lemma Generate_produced:
  assumes "Generate L fs now rootAbs opts = Inr m" "p \<in> set (Packages m)"
  shows "producedFrom L fs p"
  using Generate_packages [OF assms(1)] assms(2) by (auto simp: set_sortSlice)

lemma sorted_Packages:
  assumes "Generate L fs now rootAbs opts = Inr m"
  shows "sorted (map pkgKey (Packages m))"
proof -
  have "pkgLess = (\<lambda>a b. pkgKey a < pkgKey b)"
    by (intro ext) (rule pkgLess_key)
  with Generate_packages [OF assms] sorted_sortSlice_key [of pkgKey] show ?thesis
    by auto
qed

lemma sortType_sorted:
  "sorted (map fld_Name (ty_Fields (sortType t)))"
  "sorted (ty_Embedded (sortType t))"
  "sorted (map fn_Name (ty_Methods (sortType t)))"
  by (simp_all add: sortType_def sorted_sortSlice_key sorted_sortStrings)

lemma sortPackage_sorted:
  "sorted (pkg_Files (sortPackage q))"
  "sorted (map ty_Name (pkg_Types (sortPackage q)))"
  "sorted (map fn_Name (pkg_Functions (sortPackage q)))"
  "t \<in> set (pkg_Types (sortPackage q)) \<Longrightarrow>
     sorted (map fld_Name (ty_Fields t)) \<and> sorted (ty_Embedded t) \<and>
     sorted (map fn_Name (ty_Methods t))"
proof -
  have "ty_Name \<circ> sortType = ty_Name"
    by (rule ext) (simp add: sortType_def)
  then show "sorted (map ty_Name (pkg_Types (sortPackage q)))"
    using sorted_sortSlice_key [of ty_Name "pkg_Types q"] by (simp add: sortPackage_def)
qed (auto simp: sortPackage_def sorted_sortSlice_key sorted_sortStrings sortType_sorted)

text \<open>
  C2. In the model of a successful run, the packages are in ascending order of import
  path, then directory, then name; in each package the files, the types (by name) and
  the functions (by name) are in ascending byte order, and in each type the fields (by
  name), the embedded names and the methods (by name) are.
\<close>

theorem Generate_sorted:
  assumes "Generate L fs now rootAbs opts = Inr m"
  shows "sorted (map pkgKey (Packages m)) \<and>
    (\<forall>p \<in> set (Packages m).
       sorted (pkg_Files p) \<and> sorted (map ty_Name (pkg_Types p)) \<and>
       sorted (map fn_Name (pkg_Functions p)) \<and>
       (\<forall>t \<in> set (pkg_Types p).
          sorted (map fld_Name (ty_Fields t)) \<and> sorted (ty_Embedded t) \<and>
          sorted (map fn_Name (ty_Methods t))))"
proof (intro conjI ballI)
  show "sorted (map pkgKey (Packages m))"
    using assms by (rule sorted_Packages)
next
  fix p
  assume "p \<in> set (Packages m)"
  with assms have "producedFrom L fs p" by (rule Generate_produced)
  then obtain q where p: "p = sortPackage q"
    by (auto simp: producedFrom_def)
  show "sorted (pkg_Files p)" "sorted (map ty_Name (pkg_Types p))"
    "sorted (map fn_Name (pkg_Functions p))"
    unfolding p by (rule sortPackage_sorted)+
  fix t
  assume "t \<in> set (pkg_Types p)"
  then show "sorted (map fld_Name (ty_Fields t))" "sorted (ty_Embedded t)"
    "sorted (map fn_Name (ty_Methods t))"
    unfolding p using sortPackage_sorted(4) [of t q] by simp_all
qed

text \<open>
  In the run on the module \<open>example.com/p\<close> the final sort moves the package of
  \<open>lib-x\<close> before that of \<open>lib/core\<close>, and in the package \<open>lib\<close> the types, the functions,
  the fields, the embedded names and the methods, all declared in another order, come out
  in ascending order.
\<close>

theorem Generate_sorted_witness:
  "\<exists>m. Generate asciiLib libFs 0 [''proj''] exampleOpts = Inr m \<and>
     sorted (map pkgKey (Packages m)) \<and>
     map pkgKey (Packages m) =
       [(''example.com/p/lib'', ''lib'', ''lib''),
        (''example.com/p/lib-x'', ''lib-x'', ''main''),
        (''example.com/p/lib/core'', ''lib/core'', ''core'')] \<and>
     map (\<lambda>p. (pkg_Files p, map ty_Name (pkg_Types p), map fn_Name (pkg_Functions p)))
         (Packages m) =
       [([''lib/proj/lib/point.go'', ''lib/proj/lib/shape.go''],
         [''Point'', ''Rect'', ''Shape''], [''Describe'', ''New'']),
        ([''lib-x/proj/lib-x/tool.go''], [], [''main'']),
        ([''lib/core/proj/lib/core/core.go''], [''Base''], [])] \<and>
     map (\<lambda>t. (map fld_Name (ty_Fields t), ty_Embedded t, map fn_Name (ty_Methods t)))
         (pkg_Types (hd (Packages m))) =
       [([''X'', ''Y''], [], []),
        ([''Height'', ''Label'', ''Width''], [''*Base'', ''Point''], [''Area'', ''Scale'']),
        ([], [''Named'', ''Stringer''], [''Area'', ''Perimeter''])]"
proof -
  let ?m = "projr (Generate asciiLib libFs 0 [''proj''] exampleOpts)"
  have g: "Generate asciiLib libFs 0 [''proj''] exampleOpts = Inr ?m"
    by code_simp
  have keys: "map pkgKey (Packages ?m) =
       [(''example.com/p/lib'', ''lib'', ''lib''),
        (''example.com/p/lib-x'', ''lib-x'', ''main''),
        (''example.com/p/lib/core'', ''lib/core'', ''core'')]"
    by code_simp
  have pk: "map (\<lambda>p. (pkg_Files p, map ty_Name (pkg_Types p), map fn_Name (pkg_Functions p)))
         (Packages ?m) =
       [([''lib/proj/lib/point.go'', ''lib/proj/lib/shape.go''],
         [''Point'', ''Rect'', ''Shape''], [''Describe'', ''New'']),
        ([''lib-x/proj/lib-x/tool.go''], [], [''main'']),
        ([''lib/core/proj/lib/core/core.go''], [''Base''], [])]"
    by code_simp
  have ty: "map (\<lambda>t. (map fld_Name (ty_Fields t), ty_Embedded t, map fn_Name (ty_Methods t)))
         (pkg_Types (hd (Packages ?m))) =
       [([''X'', ''Y''], [], []),
        ([''Height'', ''Label'', ''Width''], [''*Base'', ''Point''], [''Area'', ''Scale'']),
        ([], [''Named'', ''Stringer''], [''Area'', ''Perimeter''])]"
    by code_simp
  from Generate_sorted [OF g] have s: "sorted (map pkgKey (Packages ?m))"
    by (rule conjunct1)
  show ?thesis
    by (intro exI [of _ ?m] conjI) (rule g s keys pk ty)+
qed

subsection \<open>Method binding\<close>

lemma pass1Spec_tbnOk:
  assumes "tbnOk st"
  shows "tbnOk (pass1Spec L doc k sp st)"
proof (cases sp)
  case OtherSpec
  with assms show ?thesis by (simp add: pass1Spec_def)
next
  case (TypeSpec ts)
  define t where "t = typeOfSpec L doc k ts"
  define tys where "tys = pkg_Types (fst st)"
  have res: "pass1Spec L doc k sp st =
      ((fst st)\<lparr>pkg_Types := tys @ [t]\<rparr>, (snd st)(ty_Name t \<mapsto> length tys))"
    by (simp add: pass1Spec_def TypeSpec Let_def t_def tys_def)
  show ?thesis
    unfolding res tbnOk_def
  proof (intro allI)
    fix n
    show "case snd ((fst st)\<lparr>pkg_Types := tys @ [t]\<rparr>, (snd st)(ty_Name t \<mapsto> length tys)) n of
        None \<Rightarrow> n \<notin> set (map ty_Name (pkg_Types (fst ((fst st)\<lparr>pkg_Types := tys @ [t]\<rparr>, (snd st)(ty_Name t \<mapsto> length tys)))))
      | Some i \<Rightarrow> i < length (pkg_Types (fst ((fst st)\<lparr>pkg_Types := tys @ [t]\<rparr>, (snd st)(ty_Name t \<mapsto> length tys)))) \<and>
          ty_Name (pkg_Types (fst ((fst st)\<lparr>pkg_Types := tys @ [t]\<rparr>, (snd st)(ty_Name t \<mapsto> length tys))) ! i) = n \<and>
          (\<forall>j. i < j \<and> j < length (pkg_Types (fst ((fst st)\<lparr>pkg_Types := tys @ [t]\<rparr>, (snd st)(ty_Name t \<mapsto> length tys)))) \<longrightarrow>
             ty_Name (pkg_Types (fst ((fst st)\<lparr>pkg_Types := tys @ [t]\<rparr>, (snd st)(ty_Name t \<mapsto> length tys))) ! j) \<noteq> n)"
    proof (cases "n = ty_Name t")
      case True
      then show ?thesis by auto
    next
      case False
      from assms have old: "case snd st n of
            None \<Rightarrow> n \<notin> set (map ty_Name tys)
          | Some i \<Rightarrow> i < length tys \<and> ty_Name (tys ! i) = n \<and>
              (\<forall>j. i < j \<and> j < length tys \<longrightarrow> ty_Name (tys ! j) \<noteq> n)"
        unfolding tbnOk_def tys_def by blast
      show ?thesis
      proof (cases "snd st n")
        case None
        with old False show ?thesis by simp
      next
        case (Some i)
        with old False show ?thesis
          by (auto simp: nth_append less_Suc_eq)
      qed
    qed
  qed
qed

lemma pass1Decl_tbnOk: "tbnOk st \<Longrightarrow> tbnOk (pass1Decl L d st)"
proof (cases d)
  case (GenDecl doc tok specs)
  have "tbnOk st \<Longrightarrow> tbnOk (fold (pass1Spec L doc k) sps st)" for k sps
    by (induction sps arbitrary: st) (simp_all add: pass1Spec_tbnOk)
  then show "tbnOk st \<Longrightarrow> tbnOk (pass1Decl L d st)"
    by (simp add: pass1Decl_def GenDecl)
qed (simp_all add: pass1Decl_def)

lemma pass1Decls_tbnOk: "tbnOk st \<Longrightarrow> tbnOk (fold (pass1Decl L) ds st)"
  by (induction ds arbitrary: st) (simp_all add: pass1Decl_tbnOk)

lemma pass1_tbnOk: "tbnOk st \<Longrightarrow> tbnOk (pass1 L fs1 st)"
  unfolding pass1_def
  by (induction fs1 arbitrary: st) (simp_all add: pass1Decls_tbnOk split: prod.splits)

lemma tbnOk_init: "pkg_Types pkg0 = [] \<Longrightarrow> tbnOk (pkg0, Map.empty)"
  by (simp add: tbnOk_def)

lemma pass1_indices:
  assumes "pkg_Types pkg0 = []" "snd (pass1 L fs1 (pkg0, Map.empty)) n = Some i"
  shows "i < length (pkg_Types (fst (pass1 L fs1 (pkg0, Map.empty))))"
  using pass1_tbnOk [OF tbnOk_init [OF assms(1)], of L fs1] assms(2)
  unfolding tbnOk_def by (auto split: option.splits dest!: spec [of _ n])

lemma addTypes_Nil [simp]: "addTypes [] pkg = pkg"
  by (simp add: addTypes_def)

lemma addTypes_append: "addTypes (xs @ ys) pkg = addTypes ys (addTypes xs pkg)"
  by (simp add: addTypes_def)

lemma pass1Spec_types: "fst (pass1Spec L doc k sp st) = addTypes (specTypes L doc k sp) (fst st)"
  by (cases sp) (simp_all add: pass1Spec_def specTypes_def Let_def addTypes_def)

lemma pass1Specs_types:
  "fst (fold (pass1Spec L doc k) sps st) = addTypes (concat (map (specTypes L doc k) sps)) (fst st)"
  by (induction sps arbitrary: st) (simp_all add: pass1Spec_types addTypes_append)

lemma pass1Decl_types: "fst (pass1Decl L d st) = addTypes (declTypes L d) (fst st)"
  by (cases d) (simp_all add: pass1Decl_def declTypes_def pass1Specs_types)

lemma pass1Decls_types:
  "fst (fold (pass1Decl L) ds st) = addTypes (concat (map (declTypes L) ds)) (fst st)"
  by (induction ds arbitrary: st) (simp_all add: pass1Decl_types addTypes_append)

lemma pass1_types: "fst (pass1 L fs1 st) = addTypes (allTypes L fs1) (fst st)"
  unfolding pass1_def allTypes_def
  by (induction fs1 arbitrary: st)
    (simp_all add: pass1Decls_types addTypes_append split: prod.splits)

lemma pass2Decls_funcs:
  "fold (pass2Decl L tbn) ds pkg = fold (pass2Func L tbn) (concat (map declFuncs ds)) pkg"
proof (induction ds arbitrary: pkg)
  case Nil
  then show ?case by simp
next
  case (Cons d ds)
  then show ?case by (cases d) (simp_all add: pass2Decl_def declFuncs_def)
qed

lemma pass2_funcs: "pass2 L tbn fs2 pkg = fold (pass2Func L tbn) (allFuncs fs2) pkg"
  unfolding pass2_def allFuncs_def
  by (induction fs2 arbitrary: pkg) (simp_all add: pass2Decls_funcs split: prod.splits)

lemma pass2Func_alt:
  "pass2Func L tbn fn pkg =
     (if baseNameOf fn = [] then appendFunction (fnModelOf L fn) pkg
      else case tbn (baseNameOf fn) of
             Some idx \<Rightarrow> appendMethod idx (fnModelOf L fn) pkg
           | None \<Rightarrow> appendFunction (fnModelOf L fn) pkg)"
  by (simp add: pass2Func_def baseNameOf_def fnModelOf_def Let_def
      split: option.splits list.splits)

lemma pass2Func_names:
  "map ty_Name (pkg_Types (pass2Func L tbn fn pkg)) = map ty_Name (pkg_Types pkg)"
proof -
  have "map ty_Name (pkg_Types (appendMethod i m pkg)) = map ty_Name (pkg_Types pkg)" for i m
  proof (cases "i < length (pkg_Types pkg)")
    case True
    then show ?thesis
      by (simp add: appendMethod_def map_update list_update_same_conv)
  next
    case False
    then show ?thesis
      by (simp add: appendMethod_def list_update_beyond)
  qed
  then show ?thesis
    by (simp add: pass2Func_alt appendFunction_def split: option.splits)
qed

lemma pass2_names: "map ty_Name (pkg_Types (pass2 L tbn fs2 pkg)) = map ty_Name (pkg_Types pkg)"
proof -
  have "map ty_Name (pkg_Types (fold (pass2Func L tbn) fns pkg)) = map ty_Name (pkg_Types pkg)"
    for fns
    by (induction fns arbitrary: pkg) (simp_all add: pass2Func_names)
  then show ?thesis
    by (simp add: pass2_funcs)
qed

lemma in_set_drop_nth:
  "x \<in> set (drop n xs) \<longleftrightarrow> (\<exists>j. n \<le> j \<and> j < length xs \<and> xs ! j = x)"
proof
  assume "x \<in> set (drop n xs)"
  then obtain i where "i < length (drop n xs)" "drop n xs ! i = x"
    by (auto simp: in_set_conv_nth)
  then have "n \<le> n + i \<and> n + i < length xs \<and> xs ! (n + i) = x"
    by auto
  then show "\<exists>j. n \<le> j \<and> j < length xs \<and> xs ! j = x"
    by blast
next
  assume "\<exists>j. n \<le> j \<and> j < length xs \<and> xs ! j = x"
  then obtain j where j: "n \<le> j" "j < length xs" "xs ! j = x"
    by blast
  then have "j - n < length (drop n xs)" "drop n xs ! (j - n) = x"
    by auto
  then show "x \<in> set (drop n xs)"
    by (metis nth_mem)
qed

lemma bindsTo_unique: "bindsTo names fn i \<Longrightarrow> bindsTo names fn j \<Longrightarrow> i = j"
proof (rule ccontr)
  assume a: "bindsTo names fn i" "bindsTo names fn j" "i \<noteq> j"
  have "False" if "bindsTo names fn a" "bindsTo names fn b" "a < b" for a b
  proof -
    from that have "names ! b \<in> set (drop (Suc a) names)"
      unfolding bindsTo_def in_set_drop_nth by (auto simp: Suc_le_eq)
    with that show False by (simp add: bindsTo_def)
  qed
  with a show False by (metis nat_neq_iff)
qed

lemma unbound_iff: "unbound names fn \<longleftrightarrow> \<not> (\<exists>i. bindsTo names fn i)"
proof
  assume "unbound names fn"
  then show "\<not> (\<exists>i. bindsTo names fn i)"
    by (auto simp: unbound_def bindsTo_def dest: nth_mem)
next
  assume n: "\<not> (\<exists>i. bindsTo names fn i)"
  show "unbound names fn"
  proof (rule ccontr)
    assume "\<not> unbound names fn"
    then have ne: "baseNameOf fn \<noteq> []" and "baseNameOf fn \<in> set names"
      by (simp_all add: unbound_def)
    then obtain ys zs where s: "names = ys @ baseNameOf fn # zs" "baseNameOf fn \<notin> set zs"
      by (meson split_list_last)
    then have "bindsTo names fn (length ys)"
      using ne by (simp add: bindsTo_def)
    with n show False by blast
  qed
qed

lemma tbnOk_bindsTo:
  assumes "tbnOk (pkgT, tbn)" and "baseNameOf fn \<noteq> []"
  shows "tbn (baseNameOf fn) = Some i \<longleftrightarrow> bindsTo (map ty_Name (pkg_Types pkgT)) fn i"
proof -
  let ?n = "baseNameOf fn" and ?ns = "map ty_Name (pkg_Types pkgT)"
  from assms(1) have tb: "case tbn ?n of
        None \<Rightarrow> ?n \<notin> set ?ns
      | Some i \<Rightarrow> i < length (pkg_Types pkgT) \<and> ty_Name (pkg_Types pkgT ! i) = ?n \<and>
          (\<forall>j. i < j \<and> j < length (pkg_Types pkgT) \<longrightarrow> ty_Name (pkg_Types pkgT ! j) \<noteq> ?n)"
    unfolding tbnOk_def fst_conv snd_conv by blast
  show ?thesis
  proof (cases "tbn ?n")
    case None
    with tb have "?n \<notin> set ?ns" by simp
    then have "unbound ?ns fn" by (simp add: unbound_def)
    with None show ?thesis by (simp add: unbound_iff)
  next
    case (Some k)
    with tb have k: "k < length (pkg_Types pkgT)" "ty_Name (pkg_Types pkgT ! k) = ?n"
      and last: "\<forall>j. k < j \<and> j < length (pkg_Types pkgT) \<longrightarrow> ty_Name (pkg_Types pkgT ! j) \<noteq> ?n"
      by simp_all
    have "?n \<notin> set (drop (Suc k) ?ns)"
      unfolding in_set_drop_nth using last by (auto simp: Suc_le_eq)
    with k assms(2) have b: "bindsTo ?ns fn k"
      by (simp add: bindsTo_def)
    with Some show ?thesis
      by (auto dest: bindsTo_unique)
  qed
qed

lemma pass2Func_step:
  assumes ok: "tbnOk (pkgT, tbn)"
    and names: "map ty_Name (pkg_Types pkg) = map ty_Name (pkg_Types pkgT)"
  shows "pkg_Functions (pass2Func L tbn fn pkg) =
      pkg_Functions pkg @ (if unbound (map ty_Name (pkg_Types pkgT)) fn then [fnModelOf L fn] else [])"
    and "i < length (pkg_Types pkg) \<Longrightarrow>
      pkg_Types (pass2Func L tbn fn pkg) ! i =
        (if bindsTo (map ty_Name (pkg_Types pkgT)) fn i
         then (pkg_Types pkg ! i)\<lparr>ty_Methods := ty_Methods (pkg_Types pkg ! i) @ [fnModelOf L fn]\<rparr>
         else pkg_Types pkg ! i)"
    and "methodCount (pkg_Types (pass2Func L tbn fn pkg)) + length (pkg_Functions (pass2Func L tbn fn pkg)) =
      Suc (methodCount (pkg_Types pkg) + length (pkg_Functions pkg))"
proof -
  let ?n = "baseNameOf fn" and ?ns = "map ty_Name (pkg_Types pkgT)"
  have len: "length (pkg_Types pkg) = length (pkg_Types pkgT)"
    using names by (metis length_map)
  consider (empty) "?n = []" | (none) "?n \<noteq> []" "tbn ?n = None"
    | (some) k where "?n \<noteq> []" "tbn ?n = Some k"
    by (cases "tbn ?n") auto
  then have "pkg_Functions (pass2Func L tbn fn pkg) =
      pkg_Functions pkg @ (if unbound ?ns fn then [fnModelOf L fn] else []) \<and>
    (i < length (pkg_Types pkg) \<longrightarrow>
      pkg_Types (pass2Func L tbn fn pkg) ! i =
        (if bindsTo ?ns fn i
         then (pkg_Types pkg ! i)\<lparr>ty_Methods := ty_Methods (pkg_Types pkg ! i) @ [fnModelOf L fn]\<rparr>
         else pkg_Types pkg ! i)) \<and>
    methodCount (pkg_Types (pass2Func L tbn fn pkg)) + length (pkg_Functions (pass2Func L tbn fn pkg)) =
      Suc (methodCount (pkg_Types pkg) + length (pkg_Functions pkg))"
  proof cases
    case empty
    then have "unbound ?ns fn" "\<not> bindsTo ?ns fn i"
      by (simp_all add: unbound_def bindsTo_def)
    with empty show ?thesis
      by (simp add: pass2Func_alt appendFunction_def methodCount_def)
  next
    case none
    with tbnOk_bindsTo [OF ok none(1)] have nb: "\<not> (\<exists>i. bindsTo ?ns fn i)"
      by simp
    then have "unbound ?ns fn" "\<not> bindsTo ?ns fn i"
      by (simp_all add: unbound_iff)
    with none show ?thesis
      by (simp add: pass2Func_alt appendFunction_def methodCount_def)
  next
    case some
    have b: "bindsTo ?ns fn k"
      using tbnOk_bindsTo [OF ok some(1), of k] some(2) by blast
    then have nu: "\<not> unbound ?ns fn"
      by (auto simp: unbound_iff)
    from b have k: "k < length (pkg_Types pkg)"
      using len by (simp add: bindsTo_def)
    have bi: "bindsTo ?ns fn i \<longleftrightarrow> i = k"
      using b by (auto dest: bindsTo_unique)
    let ?t = "(pkg_Types pkg ! k)\<lparr>ty_Methods := ty_Methods (pkg_Types pkg ! k) @ [fnModelOf L fn]\<rparr>"
    have p: "pass2Func L tbn fn pkg = pkg\<lparr>pkg_Types := (pkg_Types pkg)[k := ?t]\<rparr>"
      using some by (simp add: pass2Func_alt appendMethod_def)
    have "sum_list ((map (\<lambda>t. length (ty_Methods t)) (pkg_Types pkg))[k := length (ty_Methods ?t)]) =
        sum_list (map (\<lambda>t. length (ty_Methods t)) (pkg_Types pkg)) + length (ty_Methods ?t)
          - map (\<lambda>t. length (ty_Methods t)) (pkg_Types pkg) ! k"
      by (rule sum_list_update) (use k in simp)
    then have "methodCount (pkg_Types (pass2Func L tbn fn pkg)) = Suc (methodCount (pkg_Types pkg))"
      using k by (simp add: p methodCount_def map_update)
    with nu bi k show ?thesis
      by (simp add: p)
  qed
  then show "pkg_Functions (pass2Func L tbn fn pkg) =
      pkg_Functions pkg @ (if unbound (map ty_Name (pkg_Types pkgT)) fn then [fnModelOf L fn] else [])"
    and "i < length (pkg_Types pkg) \<Longrightarrow>
      pkg_Types (pass2Func L tbn fn pkg) ! i =
        (if bindsTo (map ty_Name (pkg_Types pkgT)) fn i
         then (pkg_Types pkg ! i)\<lparr>ty_Methods := ty_Methods (pkg_Types pkg ! i) @ [fnModelOf L fn]\<rparr>
         else pkg_Types pkg ! i)"
    and "methodCount (pkg_Types (pass2Func L tbn fn pkg)) + length (pkg_Functions (pass2Func L tbn fn pkg)) =
      Suc (methodCount (pkg_Types pkg) + length (pkg_Functions pkg))"
    by blast+
qed

lemma pass2_fold_step:
  assumes ok: "tbnOk (pkgT, tbn)"
  shows "map ty_Name (pkg_Types pkg) = map ty_Name (pkg_Types pkgT) \<Longrightarrow>
    pkg_Functions (fold (pass2Func L tbn) fns pkg) =
      pkg_Functions pkg @
        map (fnModelOf L) (filter (unbound (map ty_Name (pkg_Types pkgT))) fns) \<and>
    (\<forall>i < length (pkg_Types pkg).
      pkg_Types (fold (pass2Func L tbn) fns pkg) ! i =
        (pkg_Types pkg ! i)\<lparr>ty_Methods := ty_Methods (pkg_Types pkg ! i) @
           map (fnModelOf L) (filter (\<lambda>fn. bindsTo (map ty_Name (pkg_Types pkgT)) fn i) fns)\<rparr>) \<and>
    methodCount (pkg_Types (fold (pass2Func L tbn) fns pkg)) +
        length (pkg_Functions (fold (pass2Func L tbn) fns pkg)) =
      methodCount (pkg_Types pkg) + length (pkg_Functions pkg) + length fns"
proof (induction fns arbitrary: pkg)
  case Nil
  then show ?case by simp
next
  case (Cons fn fns)
  let ?pkg' = "pass2Func L tbn fn pkg"
  have names': "map ty_Name (pkg_Types ?pkg') = map ty_Name (pkg_Types pkgT)"
    using Cons.prems by (simp add: pass2Func_names)
  have len': "length (pkg_Types ?pkg') = length (pkg_Types pkg)"
    using pass2Func_names [of L tbn fn pkg] by (metis length_map)
  note ih = Cons.IH [OF names']
  note st = pass2Func_step [OF ok Cons.prems, where L = L and fn = fn]
  show ?case
  proof (intro conjI allI impI)
    show "pkg_Functions (fold (pass2Func L tbn) (fn # fns) pkg) =
        pkg_Functions pkg @
          map (fnModelOf L) (filter (unbound (map ty_Name (pkg_Types pkgT))) (fn # fns))"
      using ih st(1) by simp
  next
    fix i
    assume i: "i < length (pkg_Types pkg)"
    with ih len' have "pkg_Types (fold (pass2Func L tbn) fns ?pkg') ! i =
        (pkg_Types ?pkg' ! i)\<lparr>ty_Methods := ty_Methods (pkg_Types ?pkg' ! i) @
           map (fnModelOf L) (filter (\<lambda>fn. bindsTo (map ty_Name (pkg_Types pkgT)) fn i) fns)\<rparr>"
      by simp
    with st(2) [OF i]
    show "pkg_Types (fold (pass2Func L tbn) (fn # fns) pkg) ! i =
        (pkg_Types pkg ! i)\<lparr>ty_Methods := ty_Methods (pkg_Types pkg ! i) @
           map (fnModelOf L) (filter (\<lambda>fn. bindsTo (map ty_Name (pkg_Types pkgT)) fn i) (fn # fns))\<rparr>"
      by simp
  next
    show "methodCount (pkg_Types (fold (pass2Func L tbn) (fn # fns) pkg)) +
        length (pkg_Functions (fold (pass2Func L tbn) (fn # fns) pkg)) =
      methodCount (pkg_Types pkg) + length (pkg_Functions pkg) + length (fn # fns)"
      using ih [THEN conjunct2, THEN conjunct2] st(3) by simp
  qed
qed


text \<open>
  C1. \<open>receiverBaseName\<close> returns the name of an identifier, looks through pointer, index
  (one or several type arguments) and parenthesis nodes, and returns the empty string for
  every other expression. \<open>extractPackage\<close> fails only when the module locator does;
  otherwise it returns the types of the first pass, in their order, each with the
  Function records appended, in the order of the declarations, of exactly those function
  declarations whose receiver base name is not empty and is the name of this type (of
  the one declared last when several types have the name); the free-function list holds,
  in the order of the declarations, the Function records of exactly those function
  declarations that have no receiver, an empty receiver base name or a base name that no
  recorded type has. Every function declaration lands in exactly one of these lists:
  the number of methods and functions of the package is the number of interface methods
  recorded by the first pass plus the number of function declarations.
\<close>

theorem method_binding:
  assumes "moduleForDir L fs c dir = (Inr m, c1)"
    and "ts = allTypes L fs1" and "ns = map ty_Name ts" and "fns = allFuncs fs2"
  shows "\<exists>q. extractPackage L fs c dir name fs0 fs1 fs2 relBase = (Inr q, c1) \<and>
      length (pkg_Types q) = length ts \<and>
      (\<forall>i < length ts.
         pkg_Types q ! i =
           (ts ! i)\<lparr>ty_Methods := ty_Methods (ts ! i) @
              map (fnModelOf L) (filter (\<lambda>fn. bindsTo ns fn i) fns)\<rparr>) \<and>
      pkg_Functions q = map (fnModelOf L) (filter (unbound ns) fns) \<and>
      methodCount (pkg_Types q) + length (pkg_Functions q) = methodCount ts + length fns \<and>
      (\<forall>pkg0. pkg_Types (fst (pass1 L fs1 (pkg0, Map.empty))) = pkg_Types pkg0 @ ts) \<and>
      (\<forall>fn. unbound ns fn \<longleftrightarrow> \<not> (\<exists>i. bindsTo ns fn i)) \<and>
      (\<forall>fn i j. bindsTo ns fn i \<and> bindsTo ns fn j \<longrightarrow> i = j) \<and>
      (\<forall>fn r rs e. fdRecv fn = Some (r # rs) \<and> fType r = Some e \<longrightarrow>
         baseNameOf fn = receiverBaseName e) \<and>
      (\<forall>fn r rs. fdRecv fn = Some (r # rs) \<longrightarrow>
         fnModelOf L fn = (funcModel L fn)\<lparr>fn_Receiver := exprString L (fType r)\<rparr>) \<and>
      (\<forall>fn. fdRecv fn = None \<or> fdRecv fn = Some [] \<longrightarrow>
         baseNameOf fn = [] \<and> fnModelOf L fn = funcModel L fn) \<and>
      (\<forall>n x i is eo tps ps rs fl s.
         receiverBaseName (Ident n) = n \<and>
         receiverBaseName (StarExpr x) = receiverBaseName x \<and>
         receiverBaseName (IndexExpr x i) = receiverBaseName x \<and>
         receiverBaseName (IndexListExpr x is) = receiverBaseName x \<and>
         receiverBaseName (ParenExpr x) = receiverBaseName x \<and>
         receiverBaseName (Ellipsis eo) = [] \<and>
         receiverBaseName (FuncType tps ps rs) = [] \<and>
         receiverBaseName (StructType fl) = [] \<and>
         receiverBaseName (InterfaceType fl) = [] \<and>
         receiverBaseName (OtherExpr s) = [])"
proof -
  let ?pkg0 = "\<lparr>pkg_Name = name, pkg_ImportPath = importPath m dir,
      pkg_Dir = toRelPath relBase dir, pkg_Files = packageFiles relBase dir fs0,
      pkg_Types = [], pkg_Functions = []\<rparr>"
  let ?st = "pass1 L fs1 (?pkg0, Map.empty)"
  let ?q = "pass2 L (snd ?st) fs2 (fst ?st)"
  have ok: "tbnOk (fst ?st, snd ?st)"
    using pass1_tbnOk [OF tbnOk_init, of ?pkg0 L fs1] by simp
  have ty: "pkg_Types (fst ?st) = ts" and fu: "pkg_Functions (fst ?st) = []"
    by (simp_all add: pass1_types addTypes_def assms(2))
  have q: "extractPackage L fs c dir name fs0 fs1 fs2 relBase = (Inr ?q, c1)"
    by (simp add: extractPackage_def assms(1) Let_def)
  have fold: "?q = fold (pass2Func L (snd ?st)) fns (fst ?st)"
    by (simp add: pass2_funcs assms(4))
  note st = pass2_fold_step [OF ok refl, of L fns, folded fold, unfolded ty fu, folded assms(3)]
  have len: "length (pkg_Types ?q) = length ts"
    using pass2_names [of L "snd ?st" fs2 "fst ?st"] ty by (metis length_map)
  have base: "baseNameOf fn = receiverBaseName e"
    if "fdRecv fn = Some (r # rs) \<and> fType r = Some e" for fn r rs e
    using that by (simp add: baseNameOf_def)
  show ?thesis
  proof (intro exI [of _ ?q] conjI)
    show "extractPackage L fs c dir name fs0 fs1 fs2 relBase = (Inr ?q, c1)"
      by (rule q)
    show "length (pkg_Types ?q) = length ts"
      by (rule len)
    show "\<forall>i < length ts.
         pkg_Types ?q ! i =
           (ts ! i)\<lparr>ty_Methods := ty_Methods (ts ! i) @
              map (fnModelOf L) (filter (\<lambda>fn. bindsTo ns fn i) fns)\<rparr>"
      using st by blast
    show "pkg_Functions ?q = map (fnModelOf L) (filter (unbound ns) fns)"
      using st by simp
    show "methodCount (pkg_Types ?q) + length (pkg_Functions ?q) = methodCount ts + length fns"
      using st [THEN conjunct2, THEN conjunct2] by simp
    show "\<forall>pkg0. pkg_Types (fst (pass1 L fs1 (pkg0, Map.empty))) = pkg_Types pkg0 @ ts"
      by (simp add: pass1_types addTypes_def assms(2))
    show "\<forall>fn. unbound ns fn \<longleftrightarrow> \<not> (\<exists>i. bindsTo ns fn i)"
      by (simp only: unbound_iff) simp
    show "\<forall>fn r rs. fdRecv fn = Some (r # rs) \<longrightarrow>
         fnModelOf L fn = (funcModel L fn)\<lparr>fn_Receiver := exprString L (fType r)\<rparr>"
      by (simp add: fnModelOf_def)
    show "\<forall>fn. fdRecv fn = None \<or> fdRecv fn = Some [] \<longrightarrow>
         baseNameOf fn = [] \<and> fnModelOf L fn = funcModel L fn"
      by (auto simp: baseNameOf_def fnModelOf_def)
    show "\<forall>fn i j. bindsTo ns fn i \<and> bindsTo ns fn j \<longrightarrow> i = j"
      by (blast dest: bindsTo_unique)
    show "\<forall>fn r rs e. fdRecv fn = Some (r # rs) \<and> fType r = Some e \<longrightarrow>
         baseNameOf fn = receiverBaseName e"
      using base by blast
  qed simp
qed

text \<open>
  Methods on \<open>Box\<close> with a plain, a pointer, a generic, a two-argument generic and a
  parenthesized pointer receiver all land in the method list of \<open>Box\<close> (declared after
  them); a method on an undeclared type, a function without receiver and a method whose
  receiver has no base identifier land in the free-function list.
\<close>

theorem method_binding_witness:
  "map (\<lambda>t. (ty_Name t, map fn_Name (ty_Methods t)))
     (pkg_Types (projr (fst (extractPackage asciiLib exampleFs Map.empty [''root'', ''sub'']
        ''sample'' receiverFiles receiverFiles receiverFiles [''root''])))) =
     [(''Box'', [''Plain'', ''Pointer'', ''Generic'', ''Pair'', ''Paren''])] \<and>
   map (\<lambda>f. (fn_Name f, fn_Receiver f))
     (pkg_Functions (projr (fst (extractPackage asciiLib exampleFs Map.empty [''root'', ''sub'']
        ''sample'' receiverFiles receiverFiles receiverFiles [''root''])))) =
     [(''Lost'', ''Missing''), (''Free'', []), (''Odd'', ''?'')]"
proof -
  let ?md = "moduleForDir asciiLib exampleFs Map.empty [''root'', ''sub'']"
  let ?ts = "allTypes asciiLib receiverFiles"
  let ?fns = "allFuncs receiverFiles"
  have "fst ?md = Inr (Some exampleModule)"
    by code_simp
  then have md: "?md = (Inr (Some exampleModule), snd ?md)"
    by (metis prod.collapse)
  have len: "length ?ts = 1"
    by code_simp
  have t0: "(ty_Name (?ts ! 0), map fn_Name (ty_Methods (?ts ! 0) @
      map (fnModelOf asciiLib) (filter (\<lambda>fn. bindsTo (map ty_Name ?ts) fn 0) ?fns))) =
      (''Box'', [''Plain'', ''Pointer'', ''Generic'', ''Pair'', ''Paren''])"
    by code_simp
  have fr: "map (\<lambda>f. (fn_Name f, fn_Receiver f))
      (map (fnModelOf asciiLib) (filter (unbound (map ty_Name ?ts)) ?fns)) =
      [(''Lost'', ''Missing''), (''Free'', []), (''Odd'', ''?'')]"
    by code_simp
  from method_binding [OF md refl refl refl, of "''sample''" receiverFiles receiverFiles receiverFiles "[''root'']"]
  obtain q where q: "extractPackage asciiLib exampleFs Map.empty [''root'', ''sub'']
        ''sample'' receiverFiles receiverFiles receiverFiles [''root''] = (Inr q, snd ?md)"
    and l: "length (pkg_Types q) = length ?ts"
    and m: "\<forall>i < length ?ts. pkg_Types q ! i =
           (?ts ! i)\<lparr>ty_Methods := ty_Methods (?ts ! i) @
              map (fnModelOf asciiLib) (filter (\<lambda>fn. bindsTo (map ty_Name ?ts) fn i) ?fns)\<rparr>"
    and f: "pkg_Functions q = map (fnModelOf asciiLib) (filter (unbound (map ty_Name ?ts)) ?fns)"
    by (elim exE conjE) (rule that; assumption)
  from l len obtain t where t: "pkg_Types q = [t]"
    by (cases "pkg_Types q") auto
  with m len have "t = (?ts ! 0)\<lparr>ty_Methods := ty_Methods (?ts ! 0) @
              map (fnModelOf asciiLib) (filter (\<lambda>fn. bindsTo (map ty_Name ?ts) fn 0) ?fns)\<rparr>"
    by (metis nth_Cons_0 zero_less_one)
  with t0 have "(ty_Name t, map fn_Name (ty_Methods t)) =
      (''Box'', [''Plain'', ''Pointer'', ''Generic'', ''Pair'', ''Paren''])"
    by simp
  with t f fr q show ?thesis
    by simp
qed

subsection \<open>Struct members\<close>

lemma parseStructFields_eq:
  "parseStructFields L (Some fl) =
     (concat (map (namedFields L) fl),
      map (\<lambda>f. exprString L (fType f)) (filter (\<lambda>f. fNames f = []) fl))"
proof -
  have "namedFields L =
      (\<lambda>f. map (\<lambda>n. \<lparr>fld_Name = n, fld_Type = exprString L (fType f),
               fld_Tag = (case fTag f of None \<Rightarrow> [] | Some v \<Rightarrow> TrimBackquote v),
               fld_Embedded = False, fld_Exported = IsExported L n\<rparr>)
       (fNames f))"
    by (intro ext) (simp add: namedFields_def)
  then show ?thesis
    by (simp add: parseStructFields_def prod_eq_iff structFieldsLoop_fst structFieldsLoop_snd)
qed

lemma produced_fieldsOk:
  assumes "producedFrom L fs p"
  shows "fieldsOk (\<Union>src \<in> set (parsedFiles fs). set (fileFieldNames src)) p"
proof -
  from assms obtain c dir name pkg relBase c' q where
    ex: "extractPackage L fs c dir name pkg pkg pkg relBase = (Inr q, c')"
    and p: "p = sortPackage q" and sub: "snd ` set pkg \<subseteq> set (parsedFiles fs)"
    by (auto simp: producedFrom_def)
  have "fieldsOk (\<Union>src \<in> set (parsedFiles fs). set (fileFieldNames src)) q"
    using sub by (intro extractPackage_fieldsOk [OF ex]) auto
  then show ?thesis
    unfolding p by (rule sortPackage_fieldsOk)
qed

lemma allTypes_member:
  assumes "t \<in> set (allTypes L fs1)"
  shows "\<exists>src \<in> snd ` set fs1. \<exists>doc specs ts.
      GenDecl doc TokTYPE specs \<in> set (fileDecls src) \<and> TypeSpec ts \<in> set specs \<and>
      t = typeOfSpec L doc (length specs) ts"
proof -
  from assms obtain fname src d where f: "(fname, src) \<in> set fs1" and d: "d \<in> set (fileDecls src)"
    and t: "t \<in> set (declTypes L d)"
    by (auto simp: allTypes_def)
  from t obtain doc specs where g: "d = GenDecl doc TokTYPE specs"
    and t': "t \<in> set (concat (map (specTypes L doc (length specs)) specs))"
    by (cases d) (auto simp: declTypes_def split: if_splits)
  from t' obtain sp where sp: "sp \<in> set specs" and t'': "t \<in> set (specTypes L doc (length specs) sp)"
    by auto
  from t'' obtain ts where "sp = TypeSpec ts" "t = typeOfSpec L doc (length specs) ts"
    by (cases sp) (auto simp: specTypes_def)
  with f d g sp show ?thesis
    by force
qed

lemma extractPackage_types:
  assumes "extractPackage L fs c dir name fs0 fs1 fs2 relBase = (Inr q, c1)"
    and "t \<in> set (pkg_Types q)"
  shows "\<exists>t1 \<in> set (allTypes L fs1). \<exists>ms. t = t1\<lparr>ty_Methods := ms\<rparr>"
proof -
  from assms(1) obtain m where m: "moduleForDir L fs c dir = (Inr m, c1)"
    by (auto simp: extractPackage_def Let_def split: prod.splits sum.splits)
  let ?pkg0 = "\<lparr>pkg_Name = name, pkg_ImportPath = importPath m dir,
      pkg_Dir = toRelPath relBase dir, pkg_Files = packageFiles relBase dir fs0,
      pkg_Types = [], pkg_Functions = []\<rparr>"
  let ?st = "pass1 L fs1 (?pkg0, Map.empty)"
  have ok: "tbnOk (fst ?st, snd ?st)"
    using pass1_tbnOk [OF tbnOk_init, of ?pkg0 L fs1] by simp
  have ty: "pkg_Types (fst ?st) = allTypes L fs1"
    by (simp add: pass1_types addTypes_def)
  have q: "q = fold (pass2Func L (snd ?st)) (allFuncs fs2) (fst ?st)"
    using assms(1) by (simp add: extractPackage_def m Let_def pass2_funcs)
  have len: "length (pkg_Types q) = length (allTypes L fs1)"
    using pass2_names [of L "snd ?st" fs2 "fst ?st"] ty unfolding q pass2_funcs
    by (metis length_map)
  from assms(2) obtain i where i: "i < length (pkg_Types q)" and t: "t = pkg_Types q ! i"
    by (metis in_set_conv_nth)
  from pass2_fold_step [OF ok refl, of L "allFuncs fs2"] i len
  have "pkg_Types q ! i = (allTypes L fs1 ! i)\<lparr>ty_Methods := ty_Methods (allTypes L fs1 ! i) @
      map (fnModelOf L)
        (filter (\<lambda>fn. bindsTo (map ty_Name (allTypes L fs1)) fn i) (allFuncs fs2))\<rparr>"
    unfolding q ty by simp
  with i len t show ?thesis
    by (metis nth_mem)
qed

lemma parseStructFields_listOf:
  "parseStructFields L st =
     (concat (map (namedFields L) (listOf st)),
      map (\<lambda>f. exprString L (fType f)) (filter (\<lambda>f. fNames f = []) (listOf st)))"
proof (cases st)
  case None
  then show ?thesis by (simp add: parseStructFields_def listOf_def)
next
  case (Some fl)
  then show ?thesis by (simp add: parseStructFields_eq listOf_def)
qed

lemma typeOfSpec_struct:
  "ty_Name (typeOfSpec L doc k ts) = tsName ts"
  "tsType ts = StructType st \<Longrightarrow>
     ty_Fields (typeOfSpec L doc k ts) = concat (map (namedFields L) (listOf st)) \<and>
     ty_Embedded (typeOfSpec L doc k ts) =
       map (\<lambda>f. exprString L (fType f)) (filter (\<lambda>f. fNames f = []) (listOf st))"
  by (cases "tsType ts"; simp add: typeOfSpec_def Let_def parseStructFields_listOf)+

text \<open>
  C10. Every Type of a package of the model of a successful run records a type
  declaration of a parsed file of the file system. When the declared type is a struct
  type, the Fields of the Type are, sorted by name, exactly one Field record for every
  name of every member of the struct (none for a member without names), and the Embedded
  list of the Type is, sorted, exactly the text of the type expression of every member
  without names. Every Field of the Type has its embedded flag unset and carries a name
  that a parsed file declares as the name of a struct field; as the parser delivers no
  empty identifier, the name is not empty.
\<close>

theorem fields_named_never_embedded:
  assumes "Generate L fs now rootAbs opts = Inr m"
    and "p \<in> set (Packages m)" and "t \<in> set (pkg_Types p)"
  shows "(\<exists>src \<in> set (parsedFiles fs). \<exists>doc specs ts.
       GenDecl doc TokTYPE specs \<in> set (fileDecls src) \<and> TypeSpec ts \<in> set specs \<and>
       ty_Name t = tsName ts \<and>
       (\<forall>st. tsType ts = StructType st \<longrightarrow>
          ty_Fields t =
            sortSlice (\<lambda>a b. fld_Name a < fld_Name b) (concat (map (namedFields L) (listOf st))) \<and>
          ty_Embedded t =
            sortStrings
              (map (\<lambda>f. exprString L (fType f)) (filter (\<lambda>f. fNames f = []) (listOf st))))) \<and>
    (\<forall>f. map fld_Name (namedFields L f) = fNames f) \<and>
    (\<forall>f \<in> set (ty_Fields t).
       \<not> fld_Embedded f \<and>
       (\<exists>src \<in> set (parsedFiles fs). fld_Name f \<in> set (fileFieldNames src))) \<and>
    ((\<forall>src \<in> set (parsedFiles fs). [] \<notin> set (fileFieldNames src)) \<longrightarrow>
       (\<forall>f \<in> set (ty_Fields t). fld_Name f \<noteq> [])) \<and>
    (\<forall>fl. parseStructFields L (Some fl) =
       (concat (map (namedFields L) fl),
        map (\<lambda>f. exprString L (fType f)) (filter (\<lambda>f. fNames f = []) fl)))"
proof -
  have pf: "producedFrom L fs p"
    using assms(1,2) by (rule Generate_produced)
  then obtain c dir name pkg relBase c' q where
    ex: "extractPackage L fs c dir name pkg pkg pkg relBase = (Inr q, c')"
    and p: "p = sortPackage q" and sub: "snd ` set pkg \<subseteq> set (parsedFiles fs)"
    by (auto simp: producedFrom_def)
  from assms(3) obtain t0 where t0: "t0 \<in> set (pkg_Types q)" and t: "t = sortType t0"
    unfolding p by (auto simp: sortPackage_def set_sortSlice)
  from extractPackage_types [OF ex t0] obtain t1 ms where
    t1: "t1 \<in> set (allTypes L pkg)" and t0': "t0 = t1\<lparr>ty_Methods := ms\<rparr>"
    by blast
  from allTypes_member [OF t1] obtain src doc specs ts where
    src: "src \<in> snd ` set pkg" and g: "GenDecl doc TokTYPE specs \<in> set (fileDecls src)"
    and sp: "TypeSpec ts \<in> set specs" and t1': "t1 = typeOfSpec L doc (length specs) ts"
    by blast
  have nm: "ty_Name t = tsName ts"
    by (simp add: t t0' t1' sortType_def typeOfSpec_struct(1))
  have st: "ty_Fields t =
            sortSlice (\<lambda>a b. fld_Name a < fld_Name b) (concat (map (namedFields L) (listOf st))) \<and>
          ty_Embedded t =
            sortStrings
              (map (\<lambda>f. exprString L (fType f)) (filter (\<lambda>f. fNames f = []) (listOf st)))"
    if "tsType ts = StructType st" for st
    using typeOfSpec_struct(2) [OF that, of L doc "length specs"]
    by (simp add: t t0' t1' sortType_def)
  have first: "\<exists>src \<in> set (parsedFiles fs). \<exists>doc specs ts.
       GenDecl doc TokTYPE specs \<in> set (fileDecls src) \<and> TypeSpec ts \<in> set specs \<and>
       ty_Name t = tsName ts \<and>
       (\<forall>st. tsType ts = StructType st \<longrightarrow>
          ty_Fields t =
            sortSlice (\<lambda>a b. fld_Name a < fld_Name b) (concat (map (namedFields L) (listOf st))) \<and>
          ty_Embedded t =
            sortStrings
              (map (\<lambda>f. exprString L (fType f)) (filter (\<lambda>f. fNames f = []) (listOf st))))"
    using src sub g sp nm st by blast
  have "fieldsOk (\<Union>src \<in> set (parsedFiles fs). set (fileFieldNames src)) p"
    using pf by (rule produced_fieldsOk)
  with assms(3) have flds: "\<forall>f \<in> set (ty_Fields t).
       \<not> fld_Embedded f \<and>
       (\<exists>src \<in> set (parsedFiles fs). fld_Name f \<in> set (fileFieldNames src))"
    by (auto simp: fieldsOk_def)
  then have ne: "(\<forall>src \<in> set (parsedFiles fs). [] \<notin> set (fileFieldNames src)) \<longrightarrow>
       (\<forall>f \<in> set (ty_Fields t). fld_Name f \<noteq> [])"
    by metis
  have nf: "\<forall>f. map fld_Name (namedFields L f) = fNames f"
    by (simp add: namedFields_def comp_def)
  from first nf flds ne show ?thesis
    by (simp only: parseStructFields_eq) simp
qed

text \<open>
  The Type of \<open>Rect\<close> records the unnamed members \<open>Point\<close> and \<open>*Base\<close> in its Embedded
  list and in no Field.
\<close>

theorem fields_named_never_embedded_witness:
  "\<exists>m. Generate asciiLib libFs 0 [''proj''] exampleOpts = Inr m \<and>
     ty_Name (pkg_Types (hd (Packages m)) ! 1) = ''Rect'' \<and>
     ty_Embedded (pkg_Types (hd (Packages m)) ! 1) = [''*Base'', ''Point''] \<and>
     map fld_Name (ty_Fields (pkg_Types (hd (Packages m)) ! 1)) = [''Height'', ''Label'', ''Width''] \<and>
     list_all (\<lambda>f. \<not> fld_Embedded f \<and> fld_Name f \<noteq> []) (ty_Fields (pkg_Types (hd (Packages m)) ! 1))"
proof -
  let ?m = "projr (Generate asciiLib libFs 0 [''proj''] exampleOpts)"
  let ?p = "hd (Packages ?m)"
  let ?t = "pkg_Types ?p ! 1"
  have g: "Generate asciiLib libFs 0 [''proj''] exampleOpts = Inr ?m"
    by code_simp
  have p: "?p \<in> set (Packages ?m)"
    by code_simp
  have t: "?t \<in> set (pkg_Types ?p)"
    by code_simp
  have names: "\<forall>src \<in> set (parsedFiles libFs). [] \<notin> set (fileFieldNames src)"
    by code_simp
  have nm: "ty_Name ?t = ''Rect''" and em: "ty_Embedded ?t = [''*Base'', ''Point'']"
    and fl: "map fld_Name (ty_Fields ?t) = [''Height'', ''Label'', ''Width'']"
    by code_simp+
  from fields_named_never_embedded [OF g p t] names
  have "\<forall>f \<in> set (ty_Fields ?t). \<not> fld_Embedded f" "\<forall>f \<in> set (ty_Fields ?t). fld_Name f \<noteq> []"
    by blast+
  then have la: "list_all (\<lambda>f. \<not> fld_Embedded f \<and> fld_Name f \<noteq> []) (ty_Fields ?t)"
    by (simp add: list_all_iff)
  show ?thesis
    by (intro exI [of _ ?m] conjI) (rule g nm em fl la)+
qed

subsection \<open>Generated files\<close>

lemma generatedLoop_True:
  "generatedLoop p i ls latch = Inr True \<longleftrightarrow> (\<exists>l \<in> set (take (20 - i) ls). generatedLine l)"
proof (induction ls arbitrary: i)
  case Nil
  then show ?case by simp
next
  case (Cons l ls)
  show ?case
  proof (cases "i < 20")
    case True
    then obtain k where k: "20 - i = Suc k" "20 - (i + 1) = k"
      by (metis Suc_diff_Suc Suc_eq_plus1 diff_Suc_eq_diff_pred diff_Suc_1)
    with True Cons.IH [of "i + 1"] show ?thesis
      by auto
  next
    case False
    then show ?thesis by simp
  qed
qed

lemma isGeneratedFile_True:
  "isGeneratedFile fs p = Inr True \<longleftrightarrow>
     (\<exists>ls latch. openScan fs p = Scanned ls latch \<and> (\<exists>l \<in> set (take 20 ls). generatedLine l))"
  by (cases "openScan fs p") (simp_all add: isGeneratedFile_def generatedLoop_True)

text \<open>
  C5 (as amended). With generated-inclusion disabled, a file that passes the other
  rules of the filter (suffix, single-file name, test files) is suppressed if and only
  if it can be opened and one of the first 20 lines that the scanner delivers contains
  both phrases, \<open>DO NOT EDIT\<close> and \<open>Code generated\<close>, in that one line. In particular
  a file whose sniffing ends in an error is not suppressed.
\<close>

theorem generated_filter:
  assumes "\<not> IncludeGenerated opts" and "HasSuffix name ''.go''"
    and "onlyFile = [] \<or> name = onlyFile"
    and "IncludeTests opts \<or> \<not> HasSuffix name ''_test.go''"
  shows "(\<not> fileFilter fs dir onlyFile opts name \<longleftrightarrow>
      (\<exists>ls latch. openScan fs (dir @ [name]) = Scanned ls latch \<and>
         (\<exists>l \<in> set (take 20 ls). Contains l ''DO NOT EDIT'' \<and> Contains l ''Code generated''))) \<and>
    (\<forall>e. isGeneratedFile fs (dir @ [name]) = Inl e \<longrightarrow> fileFilter fs dir onlyFile opts name)"
proof -
  have ff: "fileFilter fs dir onlyFile opts name = (isGeneratedFile fs (dir @ [name]) \<noteq> Inr True)"
    using assms by (auto simp: fileFilter_def)
  have "isGeneratedFile fs (dir @ [name]) = Inr True \<longleftrightarrow>
      (\<exists>ls latch. openScan fs (dir @ [name]) = Scanned ls latch \<and>
         (\<exists>l \<in> set (take 20 ls). Contains l ''DO NOT EDIT'' \<and> Contains l ''Code generated''))"
    by (simp add: isGeneratedFile_True generatedLine_def)
  then show ?thesis
    unfolding ff by auto
qed

theorem generated_filter_witness:
  "\<not> fileFilter headerFs [] [] exampleOpts ''zz.go'' \<and>
   fileFilter splitHeaderFs [] [] exampleOpts ''zz.go''"
proof -
  have a: "\<not> IncludeGenerated exampleOpts" "HasSuffix ''zz.go'' ''.go''"
    "IncludeTests exampleOpts \<or> \<not> HasSuffix ''zz.go'' ''_test.go''"
    by code_simp+
  have h: "openScan headerFs ([] @ [''zz.go'']) =
      Scanned [''// Code generated by protoc. DO NOT EDIT.'', ''package sample''] None"
    by code_simp
  have s: "openScan splitHeaderFs ([] @ [''zz.go'']) =
      Scanned [''// Code generated by protoc.'', ''// DO NOT EDIT.'', ''package sample''] None"
    by code_simp
  have c: "Contains ''// Code generated by protoc. DO NOT EDIT.'' ''DO NOT EDIT''"
    "Contains ''// Code generated by protoc. DO NOT EDIT.'' ''Code generated''"
    "\<not> Contains ''// Code generated by protoc.'' ''DO NOT EDIT''"
    "\<not> Contains ''// DO NOT EDIT.'' ''Code generated''"
    "\<not> Contains ''package sample'' ''Code generated''"
    by code_simp+
  from generated_filter [OF a(1,2) _ a(3), of "[]" headerFs "[]"] h c
  have 1: "\<not> fileFilter headerFs [] [] exampleOpts ''zz.go''" by simp
  from generated_filter [OF a(1,2) _ a(3), of "[]" splitHeaderFs "[]"] s c
  have 2: "fileFilter splitHeaderFs [] [] exampleOpts ''zz.go''" by simp
  from 1 2 show ?thesis by simp
qed

theorem generated_filter_counterexample:
  "claimedGenerated [''// Code generated by protoc.'', ''// DO NOT EDIT.'', ''package sample''] \<and>
   openScan splitHeaderFs [''zz.go''] =
     Scanned [''// Code generated by protoc.'', ''// DO NOT EDIT.'', ''package sample''] None \<and>
   \<not> IncludeGenerated exampleOpts \<and>
   fileFilter splitHeaderFs [] [] exampleOpts ''zz.go''"
  by code_simp

subsection \<open>Directories without files\<close>

lemma modulePathLoop_error: "modulePathLoop L p i ls latch = Inl e \<Longrightarrow> e \<noteq> NoGoFiles"
  by (induction ls arbitrary: i) (auto simp: Let_def split: if_splits)

lemma readModulePath_error: "readModulePath L fs p = Inl e \<Longrightarrow> e \<noteq> NoGoFiles"
  by (auto simp: readModulePath_def split: scan.splits dest: modulePathLoop_error)

lemma moduleForDir_error: "moduleForDir L fs c dir = (Inl e, c') \<Longrightarrow> e \<noteq> NoGoFiles"
proof (induction L fs c dir arbitrary: c' rule: moduleForDir.induct)
  case (1 L fs c dir)
  from "1.prems" show ?case
    apply (subst (asm) moduleForDir.simps)
    apply (auto split: option.splits if_splits sum.splits prod.splits
        dest: readModulePath_error "1.IH")
    done
qed

lemma extractPackage_error:
  "extractPackage L fs c dir name f0 f1 f2 relBase = (Inl e, c') \<Longrightarrow> e \<noteq> NoGoFiles"
  by (auto simp: extractPackage_def Let_def split: prod.splits sum.splits dest: moduleForDir_error)

lemma extractAll_error:
  "extractAll L fs dir relBase ps out c = (Inl e, c') \<Longrightarrow> e \<noteq> NoGoFiles"
proof (induction L fs dir relBase ps out c rule: extractAll.induct)
  case (1 L fs dir relBase out c)
  then show ?case by simp
next
  case (2 L fs dir relBase pkgName pkg ps out c)
  show ?case
  proof (cases "extractPackage L fs c dir pkgName pkg pkg pkg relBase")
    case (Pair r c1)
    show ?thesis
    proof (cases r)
      case (Inl e1)
      with Pair "2.prems" extractPackage_error show ?thesis by auto
    next
      case (Inr q)
      with Pair "2.prems" "2.IH" [OF Pair [symmetric] Inr] show ?thesis by simp
    qed
  qed
qed

lemma walkFn_error:
  "walkFn L fs opts baseDir p name isDir walkErr st = CbErr e \<Longrightarrow> e \<noteq> NoGoFiles"
  by (auto simp: walkFn_def split: option.splits if_splits prod.splits sum.splits)

lemma walk_error:
  "walkDir L fs opts baseDir p name n st = WErr e \<Longrightarrow> e \<noteq> NoGoFiles"
  "walkEntries L fs opts baseDir p es st = WErr e \<Longrightarrow> e \<noteq> NoGoFiles"
proof (induction L fs opts baseDir p name n st and L fs opts baseDir p es st
    rule: walkDir_walkEntries.induct)
  case (1 L fs opts baseDir p name sc pr st)
  then show ?case by (auto split: cbres.splits dest: walkFn_error)
next
  case (2 L fs opts baseDir p name e st)
  then show ?case by (auto split: cbres.splits dest: walkFn_error)
next
  case (3 L fs opts baseDir p name es st)
  then show ?case by (auto split: cbres.splits dest: walkFn_error)
next
  case (4 L fs opts baseDir p st)
  then show ?case by simp
next
  case (5 L fs opts baseDir p name n es st)
  then show ?case by (auto split: wres.splits)
qed

lemma walkFn_no_files:
  assumes "ParseDir fs d (fileFilter fs d [] opts) = ([], None)"
  shows "walkFn L fs opts baseDir d name True None st =
     (if name \<in> set (ExcludeDirNames opts) then CbSkipDir else CbNil st)"
  using assms by (simp add: walkFn_def parseDir_def)

text \<open>
  C6 (as amended). When the root is a directory, the run never fails with the "no go
  files" error, and for a directory that yields no packages and no parse error after
  filtering, the function of the walk returns nil and leaves the packages and the cache
  as they are (unless the directory is excluded by name, when it is skipped).
\<close>

theorem no_go_files_skipped:
  assumes "lookup fs rootAbs = Some rootInfo" and "isDirNode rootInfo"
  shows "Generate L fs now rootAbs opts \<noteq> Inl NoGoFiles \<and>
    (\<forall>d name st.
       ParseDir fs d (fileFilter fs d [] (withDefaults opts)) = ([], None) \<longrightarrow>
       walkFn L fs (withDefaults opts) rootAbs d name True None st =
         (if name \<in> set (ExcludeDirNames (withDefaults opts)) then CbSkipDir else CbNil st))"
proof -
  have "Generate L fs now rootAbs opts \<noteq> Inl NoGoFiles"
  proof
    assume g: "Generate L fs now rootAbs opts = Inl NoGoFiles"
    show False
    proof (cases "moduleForDir L fs Map.empty rootAbs")
      case (Pair r c)
      show ?thesis
      proof (cases r)
        case (Inl e)
        with g Pair assms moduleForDir_error [of L fs Map.empty rootAbs e c] show ?thesis
          by (simp add: Generate_def Let_def)
      next
        case (Inr rootModule)
        with g Pair assms
        have "analyse L fs (withDefaults opts) rootAbs rootInfo rootAbs [] c = Inl NoGoFiles"
          by (simp add: Generate_def Let_def split: sum.splits)
        then have "walkDir L fs (withDefaults opts) rootAbs rootAbs (Base rootAbs) rootInfo ([], c)
            = WErr NoGoFiles"
          by (simp add: analyse_def WalkDir_def split: sum.splits wres.splits)
        with walk_error(1) show ?thesis by blast
      qed
    qed
  qed
  with walkFn_no_files show ?thesis by simp
qed

theorem no_go_files_skipped_witness:
  "Generate asciiLib exampleFs 0 [''root'', ''empty''] exampleOpts =
     Inr \<lparr>GeneratedAt = 0, Root = [''root'', ''empty''], Module = Some exampleModule, Packages = []\<rparr> \<and>
   walkFn asciiLib exampleFs (withDefaults exampleOpts) [''root'', ''empty''] [''root'', ''empty'']
     ''empty'' True None ([], Map.empty) = CbNil ([], Map.empty)"
proof -
  have l: "lookup exampleFs [''root'', ''empty''] = Some (DirNode [(''box_test.go'', goFile boxFile)])"
    by code_simp
  have d: "isDirNode (DirNode [(''box_test.go'', goFile boxFile)])"
    by code_simp
  have p: "ParseDir exampleFs [''root'', ''empty'']
      (fileFilter exampleFs [''root'', ''empty''] [] (withDefaults exampleOpts)) = ([], None)"
    by code_simp
  have n: "''empty'' \<notin> set (ExcludeDirNames (withDefaults exampleOpts))"
    by code_simp
  have g: "Generate asciiLib exampleFs 0 [''root'', ''empty''] exampleOpts =
     Inr \<lparr>GeneratedAt = 0, Root = [''root'', ''empty''], Module = Some exampleModule, Packages = []\<rparr>"
    by code_simp
  from no_go_files_skipped [OF l d, of asciiLib 0 exampleOpts] p n g show ?thesis
    by simp
qed

theorem no_go_files_counterexample:
  "lookup exampleFs [''root'', ''empty'', ''box_test.go''] = Some (goFile boxFile) \<and>
   ParseDir exampleFs [''root'', ''empty'']
     (fileFilter exampleFs [''root'', ''empty''] ''box_test.go'' (withDefaults exampleOpts)) = ([], None) \<and>
   Generate asciiLib exampleFs 0 [''root'', ''empty'', ''box_test.go''] exampleOpts = Inl NoGoFiles"
  by code_simp

subsection \<open>Module locator\<close>

lemma cacheOk_empty: "cacheOk L fs Map.empty"
  by (simp add: cacheOk_def)

lemma moduleForDir_cached:
  assumes "cacheOk L fs c"
  shows "fst (moduleForDir L fs c dir) = nearestModule L fs dir \<and>
    cacheOk L fs (snd (moduleForDir L fs c dir))"
  using assms
proof (induction L fs c dir rule: moduleForDir.induct)
  case (1 L fs c dir)
  show ?case
  proof (cases "c dir")
    case (Some m)
    with "1.prems" show ?thesis
      by (subst (1 2) moduleForDir.simps) (simp add: cacheOk_def)
  next
    case None
    show ?thesis
    proof (cases "fileExists fs (dir @ [''go.mod''])")
      case True
      with None "1.prems" show ?thesis
        by (subst (1 2) moduleForDir.simps, subst nearestModule.simps, subst (asm) cacheOk_def,
            subst cacheOk_def)
          (auto split: sum.splits simp: nearestModule.simps [of L fs dir])
    next
      case False
      show ?thesis
      proof (cases "butlast dir = dir")
        case True
        with None False "1.prems" show ?thesis
          by (subst (1 2) moduleForDir.simps, subst nearestModule.simps, subst (asm) cacheOk_def,
            subst cacheOk_def)
            (auto simp: nearestModule.simps [of L fs dir])
      next
        case nr: False
        from "1.IH" [OF None False nr "1.prems"]
        have ih: "fst (moduleForDir L fs c (butlast dir)) = nearestModule L fs (butlast dir)"
          "cacheOk L fs (snd (moduleForDir L fs c (butlast dir)))"
          by simp_all
        have nm: "nearestModule L fs dir = nearestModule L fs (butlast dir)"
          using False nr by (subst nearestModule.simps) simp
        obtain r c1 where p: "moduleForDir L fs c (butlast dir) = (r, c1)"
          by (cases "moduleForDir L fs c (butlast dir)")
        have m: "moduleForDir L fs c dir =
            (case r of Inl e \<Rightarrow> (Inl e, c1) | Inr m \<Rightarrow> (Inr m, c1(dir \<mapsto> m)))"
          using None False nr p by (subst moduleForDir.simps) (simp split: sum.splits)
        show ?thesis
        proof (cases r)
          case (Inl e)
          with m ih p nm show ?thesis by simp
        next
          case (Inr md)
          with m ih p nm show ?thesis
            by (auto simp: cacheOk_def)
        qed
      qed
    qed
  qed
qed


lemma modulePathLoop_isl:
  "isl (modulePathLoop L p i ls latch) \<longleftrightarrow> (\<forall>t \<in> set ls. \<not> moduleLine L t)"
  by (induction ls arbitrary: i) (auto simp: Let_def moduleLine_def)

lemma readModulePath_isl: "isl (readModulePath L fs p) \<longleftrightarrow> badModFile L fs p"
  by (cases "openScan fs p") (simp_all add: readModulePath_def badModFile_def modulePathLoop_isl)

lemma isNearest_here:
  assumes "fileExists fs (dir @ [''go.mod''])"
  shows "isNearest fs dir k \<longleftrightarrow> k = length dir"
proof
  assume n: "isNearest fs dir k"
  show "k = length dir"
  proof (rule ccontr)
    assume "k \<noteq> length dir"
    with n have "k < length dir \<and> length dir \<le> length dir"
      by (simp add: isNearest_def)
    with n have "\<not> fileExists fs (take (length dir) dir @ [''go.mod''])"
      unfolding isNearest_def by blast
    with assms show False by simp
  qed
next
  assume "k = length dir"
  with assms show "isNearest fs dir k"
    by (simp add: isNearest_def)
qed

lemma isNearest_up:
  assumes "\<not> fileExists fs (dir @ [''go.mod''])" and "dir \<noteq> []"
  shows "isNearest fs dir k \<longleftrightarrow> isNearest fs (butlast dir) k"
proof -
  obtain xs x where dir: "dir = xs @ [x]"
    using assms(2) by (metis rev_exhaust)
  have t: "take j (xs @ [x]) = take j xs" if "j \<le> length xs" for j
    using that by simp
  show ?thesis
  proof
    assume n: "isNearest fs dir k"
    have "k \<noteq> length dir"
      using n assms(1) by (auto simp: isNearest_def)
    with n have k: "k \<le> length xs"
      by (simp add: isNearest_def dir)
    have "\<not> fileExists fs (take j xs @ [''go.mod''])" if "k < j" "j \<le> length xs" for j
    proof -
      from n have "\<forall>j. k < j \<and> j \<le> length dir \<longrightarrow> \<not> fileExists fs (take j dir @ [''go.mod''])"
        unfolding isNearest_def by blast
      moreover have "j \<le> length dir"
        using that by (simp add: dir)
      ultimately have "\<not> fileExists fs (take j dir @ [''go.mod''])"
        using that(1) by blast
      moreover have "take j dir = take j xs"
        using that(2) by (simp add: dir)
      ultimately show ?thesis by simp
    qed
    moreover from n k have "fileExists fs (take k xs @ [''go.mod''])"
      unfolding isNearest_def dir by (simp add: t)
    ultimately show "isNearest fs (butlast dir) k"
      using k unfolding isNearest_def dir by simp
  next
    assume n: "isNearest fs (butlast dir) k"
    then have k: "k \<le> length xs"
      by (simp add: isNearest_def dir)
    have "\<not> fileExists fs (take j (xs @ [x]) @ [''go.mod''])"
      if "k < j" "j \<le> Suc (length xs)" for j
    proof (cases "j \<le> length xs")
      case True
      with n that show ?thesis
        unfolding isNearest_def dir by (simp add: t)
    next
      case False
      with that have "j = Suc (length xs)" by simp
      with assms(1) show ?thesis by (simp add: dir)
    qed
    with n k show "isNearest fs dir k"
      unfolding isNearest_def dir by (simp add: t)
  qed
qed

lemma nearestModule_nearest:
  assumes "isNearest fs dir k"
  shows "nearestModule L fs dir =
     (case readModulePath L fs (take k dir @ [''go.mod'']) of
        Inl e \<Rightarrow> Inl e
      | Inr modPath \<Rightarrow> Inr (Some \<lparr>mod_Path = modPath, mod_Dir = take k dir\<rparr>))"
  using assms
proof (induction L fs dir rule: nearestModule.induct)
  case (1 L fs dir)
  show ?case
  proof (cases "fileExists fs (dir @ [''go.mod''])")
    case True
    with "1.prems" have "k = length dir"
      by (simp add: isNearest_here)
    then have tk: "take k dir = dir"
      by simp
    show ?thesis
      unfolding tk by (subst nearestModule.simps) (simp add: True)
  next
    case False
    have ne: "dir \<noteq> []"
      using "1.prems" False by (auto simp: isNearest_def)
    then have nr: "butlast dir \<noteq> dir"
      by (metis length_butlast diff_less length_greater_0_conv less_irrefl zero_less_one)
    from "1.prems" have up: "isNearest fs (butlast dir) k"
      by (simp add: isNearest_up [OF False ne])
    then have "k \<le> length (butlast dir)"
      by (simp add: isNearest_def)
    then have tk: "take k (butlast dir) = take k dir"
      by (simp add: take_butlast butlast_conv_take)
    from "1.IH" [OF False nr up] False nr show ?thesis
      unfolding tk by (subst nearestModule.simps) simp
  qed
qed

lemma nearestModule_none:
  assumes "\<forall>k \<le> length dir. \<not> fileExists fs (take k dir @ [''go.mod''])"
  shows "nearestModule L fs dir = Inr None"
  using assms
proof (induction L fs dir rule: nearestModule.induct)
  case (1 L fs dir)
  from "1.prems" have False: "\<not> fileExists fs (dir @ [''go.mod''])"
    by (metis order_refl take_all)
  show ?case
  proof (cases "butlast dir = dir")
    case True
    with False show ?thesis
      by (subst nearestModule.simps) simp
  next
    case nr: False
    have "\<forall>k \<le> length (butlast dir). \<not> fileExists fs (take k (butlast dir) @ [''go.mod''])"
    proof (intro allI impI)
      fix k
      assume k: "k \<le> length (butlast dir)"
      then have "take k (butlast dir) = take k dir"
        by (simp add: butlast_conv_take)
      moreover have "k \<le> length dir"
        using k by simp
      ultimately show "\<not> fileExists fs (take k (butlast dir) @ [''go.mod''])"
        using "1.prems" by simp
    qed
    with "1.IH" [OF False nr] False nr show ?thesis
      by (subst nearestModule.simps) simp
  qed
qed

lemma nearest_exists:
  assumes "k \<le> length dir" and "fileExists fs (take k dir @ [''go.mod''])"
  shows "\<exists>k'. isNearest fs dir k'"
  using assms
proof (induction dir rule: rev_induct)
  case Nil
  then show ?case by (auto simp: isNearest_def)
next
  case (snoc x xs)
  show ?case
  proof (cases "fileExists fs ((xs @ [x]) @ [''go.mod''])")
    case True
    then have "isNearest fs (xs @ [x]) (length (xs @ [x]))"
      by (simp add: isNearest_here)
    then show ?thesis ..
  next
    case False
    with snoc.prems have "k \<noteq> length (xs @ [x])"
      by auto
    with snoc.prems have "k \<le> length xs" "fileExists fs (take k xs @ [''go.mod''])"
      by auto
    from snoc.IH [OF this] obtain k' where "isNearest fs xs k'" ..
    then have "isNearest fs (xs @ [x]) k'"
      using isNearest_up [OF False, of k'] by simp
    then show ?thesis ..
  qed
qed


text \<open>
  C7 (as amended). With a cache whose entries agree with the file system (as the
  locator itself fills it), \<open>moduleForDir\<close> returns an error if and only if the nearest
  directory, going from \<open>dir\<close> up to the root, that contains a module-declaration file
  has one that cannot be opened or in which the scanner delivers no module-path line;
  directories above that one are not consulted. When no directory up to the root
  contains a module-declaration file, it returns nil without error.
\<close>

theorem moduleForDir_error_iff:
  assumes "cacheOk L fs c"
  shows "((\<exists>e. fst (moduleForDir L fs c dir) = Inl e) \<longleftrightarrow>
      (\<exists>k. isNearest fs dir k \<and> badModFile L fs (take k dir @ [''go.mod'']))) \<and>
    ((\<forall>k \<le> length dir. \<not> fileExists fs (take k dir @ [''go.mod''])) \<longrightarrow>
       fst (moduleForDir L fs c dir) = Inr None)"
proof -
  have eq: "fst (moduleForDir L fs c dir) = nearestModule L fs dir"
    using moduleForDir_cached [OF assms] by simp
  have "(\<exists>e. nearestModule L fs dir = Inl e) \<longleftrightarrow>
      (\<exists>k. isNearest fs dir k \<and> badModFile L fs (take k dir @ [''go.mod'']))"
  proof
    assume "\<exists>e. nearestModule L fs dir = Inl e"
    then obtain e where e: "nearestModule L fs dir = Inl e" ..
    have "\<exists>k \<le> length dir. fileExists fs (take k dir @ [''go.mod''])"
    proof (rule ccontr)
      assume "\<not> ?thesis"
      then have "nearestModule L fs dir = Inr None"
        by (intro nearestModule_none) blast
      with e show False by simp
    qed
    then obtain k where "isNearest fs dir k"
      using nearest_exists by blast
    moreover from nearestModule_nearest [OF this, of L] e
    have "isl (readModulePath L fs (take k dir @ [''go.mod'']))"
      by (auto split: sum.splits)
    ultimately show "\<exists>k. isNearest fs dir k \<and> badModFile L fs (take k dir @ [''go.mod''])"
      by (auto simp: readModulePath_isl)
  next
    assume "\<exists>k. isNearest fs dir k \<and> badModFile L fs (take k dir @ [''go.mod''])"
    then obtain k where k: "isNearest fs dir k" "isl (readModulePath L fs (take k dir @ [''go.mod'']))"
      by (auto simp: readModulePath_isl)
    from nearestModule_nearest [OF k(1), of L] k(2)
    show "\<exists>e. nearestModule L fs dir = Inl e"
      by (auto simp: isl_def)
  qed
  with nearestModule_none [of dir fs L] show ?thesis
    unfolding eq by blast
qed

theorem moduleForDir_error_iff_witness:
  "isNearest nestedFs [''a''] 1 \<and> badModFile asciiLib nestedFs [''a'', ''go.mod''] \<and>
   fst (moduleForDir asciiLib nestedFs Map.empty [''a'']) = Inl (NoModulePath [''a'', ''go.mod''])"
proof -
  have f: "fileExists nestedFs [''a'', ''go.mod'']"
    by code_simp
  have n: "isNearest nestedFs [''a''] 1"
    using f by (simp add: isNearest_def)
  have b: "badModFile asciiLib nestedFs (take 1 [''a''] @ [''go.mod''])"
    by code_simp
  from moduleForDir_error_iff [OF cacheOk_empty, of asciiLib nestedFs "[''a'']"] n b
  obtain e where e: "fst (moduleForDir asciiLib nestedFs Map.empty [''a'']) = Inl e"
    by blast
  have "fst (moduleForDir asciiLib nestedFs Map.empty [''a'']) = Inl (NoModulePath [''a'', ''go.mod''])"
    by code_simp
  with n b e show ?thesis by simp
qed

theorem moduleForDir_error_counterexample:
  "claimedModuleError asciiLib nestedFs [''a'', ''b''] \<and>
   fst (moduleForDir asciiLib nestedFs Map.empty [''a'', ''b'']) =
     Inr (Some \<lparr>mod_Path = ''example.com/inner'', mod_Dir = [''a'', ''b'']\<rparr>)"
  by code_simp

subsection \<open>Import paths\<close>

lemma stripCommon_prefix: "stripCommon (take k dir) dir = ([], drop k dir)"
proof (induction dir arbitrary: k)
  case Nil
  then show ?case by simp
next
  case (Cons a dir)
  then show ?case by (cases k) simp_all
qed

lemma JoinSlash_dot:
  assumes "JoinSlash xs = ''.''" and "xs \<noteq> []"
  shows "''.'' \<in> set xs"
proof (cases xs)
  case Nil
  with assms show ?thesis by simp
next
  case (Cons x ys)
  show ?thesis
  proof (cases ys)
    case Nil
    with Cons assms show ?thesis by simp
  next
    case (Cons y zs)
    with \<open>xs = x # ys\<close> assms(1) have "x @ ''/'' @ JoinSlash (y # zs) = ''.''"
      by simp
    then show ?thesis
      by (cases x) auto
  qed
qed

lemma Rel_prefix:
  assumes "k \<le> length dir" and "''.'' \<notin> set dir"
  shows "Rel (take k dir) dir = ''.'' \<longleftrightarrow> k = length dir"
    and "k < length dir \<Longrightarrow> Rel (take k dir) dir = JoinSlash (drop k dir)"
proof -
  have r: "Rel (take k dir) dir = (if drop k dir = [] then ''.'' else JoinSlash (drop k dir))"
    by (simp add: Rel_def stripCommon_prefix Let_def)
  have "''.'' \<notin> set (drop k dir)"
    using assms(2) by (meson in_set_dropD)
  with JoinSlash_dot [of "drop k dir"] have "JoinSlash (drop k dir) \<noteq> ''.''" if "drop k dir \<noteq> []"
    using that by blast
  with r assms(1) show "Rel (take k dir) dir = ''.'' \<longleftrightarrow> k = length dir"
    by auto
  show "k < length dir \<Longrightarrow> Rel (take k dir) dir = JoinSlash (drop k dir)"
    using r by simp
qed

lemma pass1Spec_header:
  "pkg_ImportPath (fst (pass1Spec L doc k sp st)) = pkg_ImportPath (fst st)"
  by (cases sp) (simp_all add: pass1Spec_def Let_def)

lemma pass1_header: "pkg_ImportPath (fst (pass1 L fs1 st)) = pkg_ImportPath (fst st)"
proof -
  have s: "pkg_ImportPath (fst (fold (pass1Spec L doc k) sps st)) = pkg_ImportPath (fst st)"
    for doc k sps st
    by (induction sps arbitrary: st) (simp_all add: pass1Spec_header)
  have d: "pkg_ImportPath (fst (pass1Decl L d st)) = pkg_ImportPath (fst st)" for d st
    by (cases d) (simp_all add: pass1Decl_def s)
  have ds: "pkg_ImportPath (fst (fold (pass1Decl L) ds st)) = pkg_ImportPath (fst st)" for ds st
    by (induction ds arbitrary: st) (simp_all add: d)
  show ?thesis
    unfolding pass1_def
    by (induction fs1 arbitrary: st) (simp_all add: ds split: prod.splits)
qed

lemma pass2_header: "pkg_ImportPath (pass2 L tbn fs2 pkg) = pkg_ImportPath pkg"
proof -
  have f: "pkg_ImportPath (pass2Func L tbn fn pkg) = pkg_ImportPath pkg" for fn pkg
    by (simp add: pass2Func_def Let_def appendFunction_def appendMethod_def
        split: option.splits list.splits)
  have d: "pkg_ImportPath (pass2Decl L tbn d pkg) = pkg_ImportPath pkg" for d pkg
    by (cases d) (simp_all add: pass2Decl_def f)
  have ds: "pkg_ImportPath (fold (pass2Decl L tbn) ds pkg) = pkg_ImportPath pkg" for ds pkg
    by (induction ds arbitrary: pkg) (simp_all add: d)
  show ?thesis
    unfolding pass2_def
    by (induction fs2 arbitrary: pkg) (simp_all add: ds split: prod.splits)
qed

lemma extractPackage_importPath:
  assumes "extractPackage L fs c dir name f0 f1 f2 relBase = (Inr p, c')"
  shows "\<exists>m. fst (moduleForDir L fs c dir) = Inr m \<and> pkg_ImportPath p = importPath m dir"
  using assms
  by (auto simp: extractPackage_def Let_def pass1_header pass2_header
      split: prod.splits sum.splits)

text \<open>
  C8. For a package extracted from directory \<open>dir\<close> (a clean path, so without a
  component \<open>.\<close>): when \<open>take k dir\<close> is the nearest directory from \<open>dir\<close> upwards that
  holds a module-declaration file, the import path is the module path of that file if
  this directory is \<open>dir\<close> itself, and otherwise the module path, a slash, and the
  remaining components of \<open>dir\<close> joined by slashes; when no directory up to the root
  holds a module-declaration file the import path is empty.
\<close>

theorem import_path:
  assumes "cacheOk L fs c"
    and "extractPackage L fs c dir name f0 f1 f2 relBase = (Inr p, c')"
    and "''.'' \<notin> set dir"
  shows "(\<forall>k. isNearest fs dir k \<longrightarrow>
      (\<exists>modPath. readModulePath L fs (take k dir @ [''go.mod'']) = Inr modPath \<and>
         pkg_ImportPath p =
           (if k = length dir then modPath else modPath @ ''/'' @ JoinSlash (drop k dir)))) \<and>
    ((\<forall>k \<le> length dir. \<not> fileExists fs (take k dir @ [''go.mod''])) \<longrightarrow> pkg_ImportPath p = [])"
proof -
  from extractPackage_importPath [OF assms(2)] moduleForDir_cached [OF assms(1), of dir]
  obtain m where m: "nearestModule L fs dir = Inr m" and ip: "pkg_ImportPath p = importPath m dir"
    by auto
  show ?thesis
  proof (intro conjI allI impI)
    fix k
    assume k: "isNearest fs dir k"
    then have kl: "k \<le> length dir"
      by (simp add: isNearest_def)
    from nearestModule_nearest [OF k, of L] m obtain modPath where
      rd: "readModulePath L fs (take k dir @ [''go.mod'']) = Inr modPath"
      and mm: "m = Some \<lparr>mod_Path = modPath, mod_Dir = take k dir\<rparr>"
      by (auto split: sum.splits)
    have "importPath m dir =
        (if k = length dir then modPath else modPath @ ''/'' @ JoinSlash (drop k dir))"
      using Rel_prefix [OF kl assms(3)] kl by (auto simp: importPath_def mm)
    with rd ip show "\<exists>modPath. readModulePath L fs (take k dir @ [''go.mod'']) = Inr modPath \<and>
         pkg_ImportPath p =
           (if k = length dir then modPath else modPath @ ''/'' @ JoinSlash (drop k dir))"
      by simp
  next
    assume "\<forall>k \<le> length dir. \<not> fileExists fs (take k dir @ [''go.mod''])"
    then have "nearestModule L fs dir = Inr None"
      by (rule nearestModule_none)
    with m ip show "pkg_ImportPath p = []"
      by (simp add: importPath_def)
  qed
qed

theorem import_path_witness:
  "isNearest exampleFs [''root'', ''sub''] 1 \<and>
   readModulePath asciiLib exampleFs [''root'', ''go.mod''] = Inr ''example.com/m'' \<and>
   pkg_ImportPath (projr (fst (extractPackage asciiLib exampleFs Map.empty [''root'', ''sub'']
      ''sample'' [] [] [] [''root'']))) = ''example.com/m/sub''"
proof -
  have f: "fileExists exampleFs [''root'', ''go.mod'']"
    "\<not> fileExists exampleFs [''root'', ''sub'', ''go.mod'']"
    by code_simp+
  have n: "isNearest exampleFs [''root'', ''sub''] 1"
    unfolding isNearest_def
  proof (intro conjI allI impI)
    fix j :: nat
    assume "1 < j \<and> j \<le> length [''root'', ''sub'']"
    then have "j = 2" by simp
    with f(2) show "\<not> fileExists exampleFs (take j [''root'', ''sub''] @ [''go.mod''])"
      by simp
  qed (use f in simp_all)
  have r: "readModulePath asciiLib exampleFs [''root'', ''go.mod''] = Inr ''example.com/m''"
    by code_simp
  obtain p c' where e: "extractPackage asciiLib exampleFs Map.empty [''root'', ''sub'']
      ''sample'' [] [] [] [''root''] = (Inr p, c')"
    by (cases "extractPackage asciiLib exampleFs Map.empty [''root'', ''sub'']
      ''sample'' [] [] [] [''root'']")
      (auto simp: extractPackage_def Let_def split: prod.splits sum.splits
        dest!: arg_cong [where f = fst]
        simp: moduleForDir_cached [OF cacheOk_empty] nearestModule_nearest [OF n] r)
  have d: "''.'' \<notin> set [''root'', ''sub'']"
    by simp
  from import_path [OF cacheOk_empty e d] n r
  have "pkg_ImportPath p = ''example.com/m/sub''"
    by auto
  with n r e show ?thesis
    by simp
qed

subsection \<open>The cache during a run\<close>

text \<open>
  A run starts the locator with an empty cache, and every step of a run keeps the
  entries of the cache in agreement with the file system.
\<close>

lemma extractPackage_cacheOk:
  assumes "cacheOk L fs c"
  shows "cacheOk L fs (snd (extractPackage L fs c dir name f0 f1 f2 relBase))"
proof -
  have "snd (extractPackage L fs c dir name f0 f1 f2 relBase) = snd (moduleForDir L fs c dir)"
    by (simp add: extractPackage_def Let_def split: prod.splits sum.splits)
  with moduleForDir_cached [OF assms, of dir] show ?thesis by simp
qed

lemma extractAll_cacheOk:
  "cacheOk L fs c \<Longrightarrow> cacheOk L fs (snd (extractAll L fs dir relBase ps out c))"
proof (induction L fs dir relBase ps out c rule: extractAll.induct)
  case (1 L fs dir relBase out c)
  then show ?case by simp
next
  case (2 L fs dir relBase pkgName pkg ps out c)
  obtain r c1 where e: "extractPackage L fs c dir pkgName pkg pkg pkg relBase = (r, c1)"
    by (cases "extractPackage L fs c dir pkgName pkg pkg pkg relBase")
  with extractPackage_cacheOk [OF "2.prems", of dir pkgName pkg pkg pkg relBase]
  have c1: "cacheOk L fs c1" by simp
  show ?case
  proof (cases r)
    case (Inl x)
    with e c1 show ?thesis by simp
  next
    case (Inr q)
    with "2.IH" [OF e [symmetric] Inr c1] e show ?thesis by simp
  qed
qed

lemma parseDir_cacheOk:
  "cacheOk L fs c \<Longrightarrow> cacheOk L fs (snd (parseDir L fs c dir onlyFile relBase opts))"
  by (auto simp: parseDir_def extractAll_cacheOk split: prod.splits option.splits)

lemma walkFn_cacheOk:
  assumes "walkFn L fs opts baseDir p name isDir walkErr st = CbNil st'"
    and "cacheOk L fs (snd st)"
  shows "cacheOk L fs (snd st')"
proof -
  obtain r c1 where pd: "parseDir L fs (snd st) p [] baseDir opts = (r, c1)"
    by (cases "parseDir L fs (snd st) p [] baseDir opts")
  with parseDir_cacheOk [OF assms(2), of p "[]" baseDir opts] have "cacheOk L fs c1"
    by simp
  with assms pd show ?thesis
    by (auto simp: walkFn_def split: option.splits if_splits sum.splits)
qed

lemma WalkDir_cacheOk:
  assumes "WalkDir L fs opts baseDir p name n st = Inr st'" and "cacheOk L fs (snd st)"
  shows "cacheOk L fs (snd st')"
  by (rule WalkDir_inv [where I = "\<lambda>st. cacheOk L fs (snd st)", OF _ assms(2,1)])
    (rule walkFn_cacheOk)

subsection \<open>Excluded directories\<close>

lemma walkFn_not_excluded:
  "walkFn L fs opts baseDir p name True None st = CbNil st' \<Longrightarrow>
     name \<notin> set (ExcludeDirNames opts)"
  by (auto simp: walkFn_def split: if_splits)

lemma walkFn_walked:
  assumes "walkFn L fs opts baseDir p name isDir walkErr st = CbNil st'"
    and "\<forall>q \<in> set (fst st). walkedFrom L fs opts baseDir root r0 q"
    and "p = root @ tl ns" and "name = last ns" and "ns \<noteq> []" and "hd ns = r0"
    and "set (butlast ns) \<inter> set (ExcludeDirNames opts) = {}"
  shows "\<forall>q \<in> set (fst st'). walkedFrom L fs opts baseDir root r0 q"
proof (cases "isDir \<and> walkErr = None \<and> name \<notin> set (ExcludeDirNames opts)")
  case False
  with assms(1,2) show ?thesis
    by (auto simp: walkFn_def split: option.splits if_splits)
next
  case True
  have "set ns = insert (last ns) (set (butlast ns))"
    using assms(5) by (metis append_butlast_last_id list.set(1,2) set_append Un_insert_right sup_bot.right_neutral)
  with True assms(4,7) have ns: "set ns \<inter> set (ExcludeDirNames opts) = {}"
    by auto
  obtain r c1 where pd: "parseDir L fs (snd st) p [] baseDir opts = (r, c1)"
    by (cases "parseDir L fs (snd st) p [] baseDir opts")
  show ?thesis
  proof (cases r)
    case (Inl e)
    with assms(1,2) True pd show ?thesis
      by (auto simp: walkFn_def split: if_splits)
  next
    case (Inr parsed)
    with assms(1) True pd have st': "fst st' = fst st @ parsed"
      by (auto simp: walkFn_def)
    have "walkedFrom L fs opts baseDir root r0 q" if "q \<in> set parsed" for q
      unfolding walkedFrom_def
      using that pd Inr ns assms(3,5,6) by blast
    with assms(2) st' show ?thesis
      by auto
  qed
qed

lemma walk_walked:
  "(\<forall>q \<in> set (fst st). walkedFrom L fs opts baseDir root r0 q) \<Longrightarrow>
     p = root @ tl ns \<Longrightarrow> name = last ns \<Longrightarrow> ns \<noteq> [] \<Longrightarrow> hd ns = r0 \<Longrightarrow>
     set (butlast ns) \<inter> set (ExcludeDirNames opts) = {} \<Longrightarrow>
     wresInv (\<lambda>st. \<forall>q \<in> set (fst st). walkedFrom L fs opts baseDir root r0 q)
       (walkDir L fs opts baseDir p name n st)"
  "(\<forall>q \<in> set (fst st). walkedFrom L fs opts baseDir root r0 q) \<Longrightarrow>
     p = root @ tl ns \<Longrightarrow> ns \<noteq> [] \<Longrightarrow> hd ns = r0 \<Longrightarrow>
     set ns \<inter> set (ExcludeDirNames opts) = {} \<Longrightarrow>
     wresInv (\<lambda>st. \<forall>q \<in> set (fst st). walkedFrom L fs opts baseDir root r0 q)
       (walkEntries L fs opts baseDir p es st)"
proof (induction L fs opts baseDir p name n st and L fs opts baseDir p es st
    arbitrary: ns and ns rule: walkDir_walkEntries.induct)
  case (1 L fs opts baseDir p name sc pr st)
  show ?case
  proof (cases "walkFn L fs opts baseDir p name False None st")
    case (CbNil st')
    from walkFn_walked [OF CbNil "1.prems"] CbNil show ?thesis
      by (simp add: wresInv_def)
  qed (use "1.prems"(1) in \<open>simp_all add: wresInv_def\<close>)
next
  case (2 L fs opts baseDir p name e st)
  show ?case
  proof (cases "walkFn L fs opts baseDir p name True None st")
    case (CbNil st')
    note i' = walkFn_walked [OF CbNil "2.prems"]
    show ?thesis
    proof (cases "walkFn L fs opts baseDir p name True (Some e) st'")
      case c2: (CbNil st'')
      from walkFn_walked [OF c2 i' "2.prems"(2-)] CbNil c2 show ?thesis
        by (simp add: wresInv_def)
    qed (use CbNil i' in \<open>simp_all add: wresInv_def\<close>)
  qed (use "2.prems"(1) in \<open>simp_all add: wresInv_def\<close>)
next
  case (3 L fs opts baseDir p name es st)
  show ?case
  proof (cases "walkFn L fs opts baseDir p name True None st")
    case (CbNil st')
    note i' = walkFn_walked [OF CbNil "3.prems"]
    have "set ns = insert (last ns) (set (butlast ns))"
      using "3.prems"(4)
      by (metis append_butlast_last_id list.set(1,2) set_append Un_insert_right sup_bot.right_neutral)
    with walkFn_not_excluded [OF CbNil] "3.prems"(3,6)
    have ns: "set ns \<inter> set (ExcludeDirNames opts) = {}"
      by auto
    from "3.IH" [OF CbNil i' "3.prems"(2,4,5) ns] CbNil show ?thesis
      by simp
  qed (use "3.prems"(1) in \<open>simp_all add: wresInv_def\<close>)
next
  case (4 L fs opts baseDir p st)
  then show ?case by (simp add: wresInv_def)
next
  case (5 L fs opts baseDir p name n es st)
  have p': "p @ [name] = root @ tl (ns @ [name])"
    using "5.prems"(2,3) by simp
  have b: "set (butlast (ns @ [name])) \<inter> set (ExcludeDirNames opts) = {}"
    using "5.prems"(5) by simp
  have h: "hd (ns @ [name]) = r0"
    using "5.prems"(3,4) by simp
  note d = "5.IH"(1) [OF "5.prems"(1) p' _ _ h b]
  show ?case
  proof (cases "walkDir L fs opts baseDir (p @ [name]) name n st")
    case (WNil st')
    with d have "\<forall>q \<in> set (fst st'). walkedFrom L fs opts baseDir root r0 q"
      by (simp add: wresInv_def)
    from "5.IH"(2) [OF WNil this "5.prems"(2-)] WNil show ?thesis
      by simp
  next
    case (WSkipDir st')
    with d show ?thesis by (simp add: wresInv_def)
  next
    case (WErr e)
    then show ?thesis by (simp add: wresInv_def)
  qed
qed


lemma extractPackage_dir:
  assumes "extractPackage L fs c dir name f0 f1 f2 relBase = (Inr q, c')"
  shows "pkg_Dir q = toRelPath relBase dir"
proof -
  have f: "pkg_Dir (pass2Func L tbn fn pkg) = pkg_Dir pkg" for tbn fn pkg
    by (simp add: pass2Func_alt appendFunction_def appendMethod_def split: option.splits)
  have "pkg_Dir (fold (pass2Func L tbn) fns pkg) = pkg_Dir pkg" for tbn fns pkg
    by (induction fns arbitrary: pkg) (simp_all add: f)
  with assms show ?thesis
    by (auto simp: extractPackage_def Let_def pass2_funcs pass1_types addTypes_def
        split: prod.splits sum.splits)
qed

lemma extractAll_dir:
  assumes "extractAll L fs dir relBase ps out c = (Inr pkgs, c')"
    and "\<forall>p \<in> set out. pkg_Dir p = toRelPath relBase dir"
  shows "\<forall>p \<in> set pkgs. pkg_Dir p = toRelPath relBase dir"
  using assms
proof (induction L fs dir relBase ps out c rule: extractAll.induct)
  case (1 L fs dir relBase out c)
  then show ?case by simp
next
  case (2 L fs dir relBase pkgName pkg ps out c)
  from 2(2) obtain q c1 where
    ex: "extractPackage L fs c dir pkgName pkg pkg pkg relBase = (Inr q, c1)"
    and rest: "extractAll L fs dir relBase ps (out @ [sortPackage q]) c1 = (Inr pkgs, c')"
    by (auto split: prod.splits sum.splits)
  have "pkg_Dir (sortPackage q) = toRelPath relBase dir"
    using extractPackage_dir [OF ex] by (simp add: sortPackage_def)
  with 2(3) have "\<forall>p \<in> set (out @ [sortPackage q]). pkg_Dir p = toRelPath relBase dir"
    by simp
  with 2(1) [OF ex [symmetric] refl rest] show ?case
    by blast
qed

lemma parseDir_dir:
  assumes "parseDir L fs c dir onlyFile relBase opts = (Inr pkgs, c')" and "p \<in> set pkgs"
  shows "pkg_Dir p = toRelPath relBase dir"
proof -
  obtain parsed first where pd: "ParseDir fs dir (fileFilter fs dir onlyFile opts) = (parsed, first)"
    by (cases "ParseDir fs dir (fileFilter fs dir onlyFile opts)")
  with assms(1) have ea: "extractAll L fs dir relBase parsed [] c = (Inr pkgs, c')"
    by (auto simp: parseDir_def split: option.splits if_splits)
  from extractAll_dir [OF ea] assms(2) show ?thesis
    by simp
qed

lemma parseDir_options:
  assumes "IncludeTests o1 = IncludeTests o2" and "IncludeGenerated o1 = IncludeGenerated o2"
  shows "parseDir L fs c dir onlyFile relBase o1 = parseDir L fs c dir onlyFile relBase o2"
proof -
  have "fileFilter fs dir onlyFile o1 = fileFilter fs dir onlyFile o2"
    by (rule ext) (simp add: fileFilter_def assms)
  then show ?thesis
    by (simp add: parseDir_def)
qed

lemma withDefaults_flags:
  "IncludeTests (withDefaults o1) = IncludeTests o1"
  "IncludeGenerated (withDefaults o1) = IncludeGenerated o1"
  by (simp_all add: withDefaults_def Let_def)

lemma Generate_file_root:
  assumes "lookup fs rootAbs = Some rootInfo" and "\<not> isDirNode rootInfo"
  shows "Generate L fs now rootAbs (opts\<lparr>ExcludeDirNames := xs\<rparr>) = Generate L fs now rootAbs opts"
proof -
  from assms(2) obtain sc pr where r: "rootInfo = FileNode sc pr"
    by (cases rootInfo) (simp_all add: isDirNode_def)
  have pd: "parseDir L fs c dir onlyFile relBase (withDefaults (opts\<lparr>ExcludeDirNames := xs\<rparr>)) =
      parseDir L fs c dir onlyFile relBase (withDefaults opts)" for c dir onlyFile relBase
    by (rule parseDir_options) (simp_all add: withDefaults_flags)
  have an: "analyse L fs (withDefaults (opts\<lparr>ExcludeDirNames := xs\<rparr>)) rootAbs rootInfo baseDir onlyFile c =
      analyse L fs (withDefaults opts) rootAbs rootInfo baseDir onlyFile c" for baseDir onlyFile c
    by (simp add: analyse_def pd WalkDir_def walkFn_def r)
  show ?thesis
    unfolding Generate_def Let_def assms(1) option.case an by (rule refl)
qed


text \<open>
  C3 (as amended). When the root is a directory, every package of the model was
  produced by \<open>parseDir\<close> on a directory \<open>d\<close> at or below the root, its \<open>Dir\<close> is the path
  of \<open>d\<close> relative to the root, and neither the name of the root nor any component of
  \<open>d\<close> below the root is in the exclusion set: a directory of the walked tree with an
  excluded name, and everything beneath it, contributes no package. When the root is a
  file, the exclusion set is not consulted: the run returns the same result for every
  exclusion set.
\<close>

theorem excluded_pruned:
  assumes "lookup fs rootAbs = Some rootInfo"
  shows "(isDirNode rootInfo \<longrightarrow>
      (\<forall>m. Generate L fs now rootAbs opts = Inr m \<longrightarrow>
         (\<forall>p \<in> set (Packages m).
            \<exists>d c c' pkgs.
              parseDir L fs c d [] rootAbs (withDefaults opts) = (Inr pkgs, c') \<and> p \<in> set pkgs \<and>
              pkg_Dir p = toRelPath rootAbs d \<and>
              take (length rootAbs) d = rootAbs \<and>
              Base rootAbs \<notin> set (ExcludeDirNames (withDefaults opts)) \<and>
              (\<forall>n \<in> set (drop (length rootAbs) d).
                 n \<notin> set (ExcludeDirNames (withDefaults opts)))))) \<and>
    (\<not> isDirNode rootInfo \<longrightarrow>
      (\<forall>xs. Generate L fs now rootAbs (opts\<lparr>ExcludeDirNames := xs\<rparr>) =
         Generate L fs now rootAbs opts))"
proof (intro conjI impI allI ballI)
  fix xs
  assume "\<not> isDirNode rootInfo"
  with assms show "Generate L fs now rootAbs (opts\<lparr>ExcludeDirNames := xs\<rparr>) =
      Generate L fs now rootAbs opts"
    by (rule Generate_file_root)
next
  fix m p
  assume dir: "isDirNode rootInfo" and g: "Generate L fs now rootAbs opts = Inr m"
    and p: "p \<in> set (Packages m)"
  let ?opts = "withDefaults opts"
  let ?I = "\<lambda>st. \<forall>q \<in> set (fst st). walkedFrom L fs ?opts rootAbs rootAbs (Base rootAbs) q"
  from g assms dir obtain c pkgs where
    an: "analyse L fs ?opts rootAbs rootInfo rootAbs [] c = Inr pkgs"
    and pk: "Packages m = sortSlice pkgLess pkgs"
    by (auto simp: Generate_def Let_def split: prod.splits sum.splits)
  from an obtain c' where
    w: "WalkDir L fs ?opts rootAbs rootAbs (Base rootAbs) rootInfo ([], c) = Inr (pkgs, c')"
    by (auto simp: analyse_def split: sum.splits)
  have "wresInv ?I (walkDir L fs ?opts rootAbs rootAbs (Base rootAbs) rootInfo ([], c))"
    by (rule walk_walked(1) [where ns = "[Base rootAbs]"]) simp_all
  with w have "?I (pkgs, c')"
    by (auto simp: WalkDir_def wresInv_def split: wres.splits)
  moreover have "p \<in> set pkgs"
    using p pk by (simp add: set_sortSlice)
  ultimately have "walkedFrom L fs ?opts rootAbs rootAbs (Base rootAbs) p"
    by simp
  then obtain ns c1 c2 ps where ns: "ns \<noteq> []" "hd ns = Base rootAbs"
    "set ns \<inter> set (ExcludeDirNames ?opts) = {}"
    and pd: "parseDir L fs c1 (rootAbs @ tl ns) [] rootAbs ?opts = (Inr ps, c2)" "p \<in> set ps"
    unfolding walkedFrom_def by blast
  from ns have "Base rootAbs \<notin> set (ExcludeDirNames ?opts)"
    by (metis disjoint_iff hd_in_set)
  moreover from ns have "\<forall>n \<in> set (tl ns). n \<notin> set (ExcludeDirNames ?opts)"
    by (metis disjoint_iff list.set_sel(2))
  moreover have "pkg_Dir p = toRelPath rootAbs (rootAbs @ tl ns)"
    using pd by (rule parseDir_dir)
  ultimately show "\<exists>d c c' pkgs.
      parseDir L fs c d [] rootAbs ?opts = (Inr pkgs, c') \<and> p \<in> set pkgs \<and>
      pkg_Dir p = toRelPath rootAbs d \<and>
      take (length rootAbs) d = rootAbs \<and>
      Base rootAbs \<notin> set (ExcludeDirNames ?opts) \<and>
      (\<forall>n \<in> set (drop (length rootAbs) d). n \<notin> set (ExcludeDirNames ?opts))"
    using pd by (intro exI [of _ "rootAbs @ tl ns"] exI [of _ c1] exI [of _ c2] exI [of _ ps]) simp
qed

text \<open>
  In the run on \<open>/root\<close> the package of \<open>/root/sub\<close> is produced and none from
  \<open>/root/vendor\<close>; the run on the file \<open>/root/vendor/box.go\<close> returns its package also when
  the exclusion set is \<open>{sub}\<close>.
\<close>

theorem excluded_pruned_witness:
  "(\<exists>d c c' pkgs.
      parseDir asciiLib exampleFs c d [] [''root''] (withDefaults exampleOpts) = (Inr pkgs, c') \<and>
      boxPackage ''example.com/m/sub'' ''sub'' ''sub/root/sub/box.go'' \<in> set pkgs \<and>
      take (length [''root'']) d = [''root''] \<and>
      Base [''root''] \<notin> set (ExcludeDirNames (withDefaults exampleOpts)) \<and>
      ''vendor'' \<notin> set (drop (length [''root'']) d)) \<and>
   Generate asciiLib exampleFs 0 [''root'', ''vendor'', ''box.go'']
       (exampleOpts\<lparr>ExcludeDirNames := [''sub'']\<rparr>) =
     Inr \<lparr>GeneratedAt = 0, Root = [''root'', ''vendor'', ''box.go''], Module = Some exampleModule,
          Packages = [boxPackage ''example.com/m/vendor'' ''.'' ''root/vendor/box.go'']\<rparr>"
proof -
  let ?p = "boxPackage ''example.com/m/sub'' ''sub'' ''sub/root/sub/box.go''"
  have g: "Generate asciiLib exampleFs 0 [''root''] exampleOpts =
     Inr \<lparr>GeneratedAt = 0, Root = [''root''], Module = Some exampleModule, Packages = [?p]\<rparr>"
    by code_simp
  have l: "lookup exampleFs [''root''] =
      Some (DirNode
           [(''empty'', DirNode [(''box_test.go'', goFile boxFile)]),
            (''go.mod'', textFile [''module example.com/m'', [], ''go 1.21'']),
            (''sub'', DirNode [(''box.go'', goFile boxFile)]),
            (''vendor'', DirNode [(''box.go'', goFile boxFile)])])"
    by code_simp
  have v: "''vendor'' \<in> set (ExcludeDirNames (withDefaults exampleOpts))"
    by code_simp
  have first: "\<exists>d c c' pkgs.
      parseDir asciiLib exampleFs c d [] [''root''] (withDefaults exampleOpts) = (Inr pkgs, c') \<and>
      ?p \<in> set pkgs \<and>
      take (length [''root'']) d = [''root''] \<and>
      Base [''root''] \<notin> set (ExcludeDirNames (withDefaults exampleOpts)) \<and>
      ''vendor'' \<notin> set (drop (length [''root'']) d)"
    using excluded_pruned [OF l, of asciiLib 0 exampleOpts] g v
    by (simp add: isDirNode_def) blast
  have lf: "lookup exampleFs [''root'', ''vendor'', ''box.go''] = Some (goFile boxFile)"
    by code_simp
  have nd: "\<not> isDirNode (goFile boxFile)"
    by code_simp
  have gf: "Generate asciiLib exampleFs 0 [''root'', ''vendor'', ''box.go''] exampleOpts =
     Inr \<lparr>GeneratedAt = 0, Root = [''root'', ''vendor'', ''box.go''], Module = Some exampleModule,
          Packages = [boxPackage ''example.com/m/vendor'' ''.'' ''root/vendor/box.go'']\<rparr>"
    by code_simp
  have second: "Generate asciiLib exampleFs 0 [''root'', ''vendor'', ''box.go'']
       (exampleOpts\<lparr>ExcludeDirNames := [''sub'']\<rparr>) =
     Inr \<lparr>GeneratedAt = 0, Root = [''root'', ''vendor'', ''box.go''], Module = Some exampleModule,
          Packages = [boxPackage ''example.com/m/vendor'' ''.'' ''root/vendor/box.go'']\<rparr>"
    using excluded_pruned [OF lf, of asciiLib 0 exampleOpts] nd gf by simp
  from first second show ?thesis
    by (rule conjI)
qed

text \<open>
  The claim as stated fails for a directory above the root and for the directory of a
  root that is a file: with \<open>vendor\<close> in the exclusion set, the run on the directory
  \<open>/root/vendor/lib\<close>, beneath \<open>/root/vendor\<close>, returns a package, and so does the run on
  the file \<open>/root/vendor/box.go\<close>.
\<close>

theorem excluded_pruned_counterexample:
  "''vendor'' \<in> set (ExcludeDirNames (withDefaults exampleOpts)) \<and>
   Generate asciiLib vendorFs 0 [''root'', ''vendor'', ''lib''] exampleOpts =
     Inr \<lparr>GeneratedAt = 0, Root = [''root'', ''vendor'', ''lib''], Module = Some exampleModule,
          Packages = [boxPackage ''example.com/m/vendor/lib'' ''.'' ''root/vendor/lib/box.go'']\<rparr> \<and>
   Generate asciiLib exampleFs 0 [''root'', ''vendor'', ''box.go''] exampleOpts =
     Inr \<lparr>GeneratedAt = 0, Root = [''root'', ''vendor'', ''box.go''], Module = Some exampleModule,
          Packages = [boxPackage ''example.com/m/vendor'' ''.'' ''root/vendor/box.go'']\<rparr>"
  by code_simp

subsection \<open>Order of the files\<close>

lemma update_distinct_key:
  assumes "distinct (map k xs)" and "i < length xs"
  shows "xs[i := g (xs ! i)] = map (\<lambda>t. if k t = k (xs ! i) then g t else t) xs"
proof (rule nth_equalityI)
  show "length (xs[i := g (xs ! i)]) = length (map (\<lambda>t. if k t = k (xs ! i) then g t else t) xs)"
    by simp
next
  fix j
  assume "j < length (xs[i := g (xs ! i)])"
  then have j: "j < length xs" by simp
  show "xs[i := g (xs ! i)] ! j = map (\<lambda>t. if k t = k (xs ! i) then g t else t) xs ! j"
  proof (cases "j = i")
    case True
    with j show ?thesis by simp
  next
    case False
    with assms j have "k (xs ! j) \<noteq> k (xs ! i)"
      by (metis distinct_conv_nth length_map nth_map)
    with False j show ?thesis by simp
  qed
qed

lemma pass2Func_bound:
  assumes ok: "tbnOk (pkgT, tbn)"
    and names: "map ty_Name (pkg_Types pkg) = map ty_Name (pkg_Types pkgT)"
    and dist: "distinct (map ty_Name (pkg_Types pkg))"
    and N: "N = ty_Name ` set (pkg_Types pkg)"
  shows "pass2Func L tbn fn pkg =
     (case boundName N fn of
        None \<Rightarrow> pkg\<lparr>pkg_Functions := pkg_Functions pkg @ [fnModelOf L fn]\<rparr>
      | Some n \<Rightarrow>
          pkg\<lparr>pkg_Types :=
                map (\<lambda>t. if ty_Name t = n then t\<lparr>ty_Methods := ty_Methods t @ [fnModelOf L fn]\<rparr> else t)
                  (pkg_Types pkg)\<rparr>)"
proof -
  let ?n = "baseNameOf fn"
  have len: "length (pkg_Types pkg) = length (pkg_Types pkgT)"
    using names by (metis length_map)
  have setN: "N = set (map ty_Name (pkg_Types pkgT))"
    using N names by (metis list.set_map)
  from ok have tb: "case tbn ?n of
        None \<Rightarrow> ?n \<notin> set (map ty_Name (pkg_Types pkgT))
      | Some i \<Rightarrow> i < length (pkg_Types pkgT) \<and> ty_Name (pkg_Types pkgT ! i) = ?n \<and>
          (\<forall>j. i < j \<and> j < length (pkg_Types pkgT) \<longrightarrow> ty_Name (pkg_Types pkgT ! j) \<noteq> ?n)"
    unfolding tbnOk_def fst_conv snd_conv by blast
  show ?thesis
  proof (cases "?n = []")
    case True
    then show ?thesis
      by (simp add: pass2Func_alt boundName_def appendFunction_def)
  next
    case False
    show ?thesis
    proof (cases "tbn ?n")
      case None
      with tb setN have "?n \<notin> N" by simp
      with False None show ?thesis
        by (simp add: pass2Func_alt boundName_def appendFunction_def)
    next
      case (Some i)
      with tb have i: "i < length (pkg_Types pkg)" and nm: "ty_Name (pkg_Types pkgT ! i) = ?n"
        using len by simp_all
      have nm': "ty_Name (pkg_Types pkg ! i) = ?n"
        using names i nm by (metis len nth_map)
      then have "?n \<in> N"
        using N i by (metis image_eqI nth_mem)
      with False have b: "boundName N fn = Some ?n"
        by (simp add: boundName_def)
      have "(pkg_Types pkg)[i := (pkg_Types pkg ! i)
              \<lparr>ty_Methods := ty_Methods (pkg_Types pkg ! i) @ [fnModelOf L fn]\<rparr>] =
          map (\<lambda>t. if ty_Name t = ty_Name (pkg_Types pkg ! i)
                    then t\<lparr>ty_Methods := ty_Methods t @ [fnModelOf L fn]\<rparr> else t) (pkg_Types pkg)"
        by (rule update_distinct_key [OF dist i,
              where g = "\<lambda>t. t\<lparr>ty_Methods := ty_Methods t @ [fnModelOf L fn]\<rparr>"])
      with False Some b nm' show ?thesis
        by (simp add: pass2Func_alt appendMethod_def)
    qed
  qed
qed

lemma pass2_fold_bound:
  assumes "tbnOk (pkgT, tbn)"
    and "map ty_Name (pkg_Types pkg) = map ty_Name (pkg_Types pkgT)"
    and "distinct (map ty_Name (pkg_Types pkg))"
    and "N = ty_Name ` set (pkg_Types pkg)"
  shows "fold (pass2Func L tbn) fns pkg =
     pkg\<lparr>pkg_Types := map (withMethods L N fns) (pkg_Types pkg),
         pkg_Functions := pkg_Functions pkg @ freeFuncs L N fns\<rparr>"
  using assms(2-4)
proof (induction fns arbitrary: pkg)
  case Nil
  have "withMethods L N [] = (\<lambda>t. t)"
    by (rule ext) (simp add: withMethods_def)
  then show ?case
    by (simp add: freeFuncs_def)
next
  case (Cons fn fns)
  let ?m = "fnModelOf L fn"
  note step = pass2Func_bound [OF assms(1) Cons.prems, of L fn]
  show ?case
  proof (cases "boundName N fn")
    case None
    let ?pkg' = "pkg\<lparr>pkg_Functions := pkg_Functions pkg @ [?m]\<rparr>"
    have p': "pass2Func L tbn fn pkg = ?pkg'"
      using step None by simp
    have w: "withMethods L N (fn # fns) = withMethods L N fns"
      by (rule ext) (simp add: withMethods_def None)
    have f: "freeFuncs L N (fn # fns) = ?m # freeFuncs L N fns"
      by (simp add: freeFuncs_def None)
    have "fold (pass2Func L tbn) fns ?pkg' =
        ?pkg'\<lparr>pkg_Types := map (withMethods L N fns) (pkg_Types ?pkg'),
              pkg_Functions := pkg_Functions ?pkg' @ freeFuncs L N fns\<rparr>"
      by (rule Cons.IH) (use Cons.prems in simp_all)
    then show ?thesis
      by (simp add: p' w f)
  next
    case (Some n)
    let ?upd = "\<lambda>t. if ty_Name t = n then t\<lparr>ty_Methods := ty_Methods t @ [?m]\<rparr> else t"
    let ?pkg' = "pkg\<lparr>pkg_Types := map ?upd (pkg_Types pkg)\<rparr>"
    have p': "pass2Func L tbn fn pkg = ?pkg'"
      using step Some by simp
    have nm: "map ty_Name (map ?upd xs) = map ty_Name xs" for xs
      by (induction xs) simp_all
    have w: "withMethods L N (fn # fns) t = withMethods L N fns (?upd t)" for t
      by (simp add: withMethods_def Some)
    have f: "freeFuncs L N (fn # fns) = freeFuncs L N fns"
      by (simp add: freeFuncs_def Some)
    have "fold (pass2Func L tbn) fns ?pkg' =
        ?pkg'\<lparr>pkg_Types := map (withMethods L N fns) (pkg_Types ?pkg'),
              pkg_Functions := pkg_Functions ?pkg' @ freeFuncs L N fns\<rparr>"
    proof (rule Cons.IH)
      show "map ty_Name (pkg_Types ?pkg') = map ty_Name (pkg_Types pkgT)"
        using Cons.prems(1) by (simp add: nm del: map_map)
      show "distinct (map ty_Name (pkg_Types ?pkg'))"
        using Cons.prems(2) by (simp add: nm del: map_map)
      have "set (map ty_Name (map ?upd (pkg_Types pkg))) = set (map ty_Name (pkg_Types pkg))"
        by (simp only: nm)
      then show "N = ty_Name ` set (pkg_Types ?pkg')"
        using Cons.prems(3) by (simp del: map_map)
    qed
    then show ?thesis
      by (simp add: p' w f comp_def)
  qed
qed

lemma sorted_unique_key:
  fixes k :: "'a \<Rightarrow> 'b::linorder"
  assumes "sorted (map k xs)" and "sorted (map k ys)" and "mset xs = mset ys"
    and "distinct (map k xs)"
  shows "xs = ys"
  by (metis assms distinct_map sort_key_inj_key_eq)

lemma sortSlice_perm:
  fixes k :: "'a \<Rightarrow> 'b::linorder"
  assumes "mset xs = mset ys" and "distinct (map k xs)"
  shows "sortSlice (\<lambda>a b. k a < k b) xs = sortSlice (\<lambda>a b. k a < k b) ys"
proof (rule sorted_unique_key [where k = k])
  show "mset (sortSlice (\<lambda>a b. k a < k b) xs) = mset (sortSlice (\<lambda>a b. k a < k b) ys)"
    using assms(1) by (simp add: mset_sortSlice)
  have "mset (map k (sortSlice (\<lambda>a b. k a < k b) xs)) = mset (map k xs)"
    by (simp add: mset_sortSlice)
  with assms(2) show "distinct (map k (sortSlice (\<lambda>a b. k a < k b) xs))"
    by (metis mset_eq_imp_distinct_iff)
qed (rule sorted_sortSlice_key)+

lemma sortStrings_perm:
  assumes "mset xs = mset ys"
  shows "sortStrings xs = sortStrings ys"
proof -
  have "sorted (sortStrings xs)" "sorted (sortStrings ys)"
    by (rule sorted_sortStrings)+
  moreover have "mset (sortStrings xs) = mset (sortStrings ys)"
    using assms by (simp add: sortStrings_def mset_sortSlice)
  ultimately show ?thesis
    by (metis properties_for_sort)
qed

lemma insertBack_map:
  assumes "\<And>a b. lt (g a) (g b) = lt a b"
  shows "insertBack lt (g x) (map g rs) = map g (insertBack lt x rs)"
  by (induction rs) (simp_all add: assms)

lemma sortSlice_map:
  assumes "\<And>a b. lt (g a) (g b) = lt a b"
  shows "sortSlice lt (map g xs) = map g (sortSlice lt xs)"
proof -
  have "foldl (\<lambda>rs x. insertBack lt x rs) (map g acc) (map g xs) =
      map g (foldl (\<lambda>rs x. insertBack lt x rs) acc xs)" for acc
    by (induction xs arbitrary: acc) (simp_all add: insertBack_map [of lt g, OF assms])
  from this [of "[]"] show ?thesis
    by (simp add: sortSlice_def rev_map)
qed

lemma mset_concat_map:
  assumes "mset xs = mset ys"
  shows "mset (concat (map f xs)) = mset (concat (map f ys))"
proof -
  have "mset (concat (map f zs)) = (\<Sum>z \<in># mset zs. mset (f z))" for zs
    by (induction zs) simp_all
  with assms show ?thesis by simp
qed

lemma extractPackage_names:
  assumes "extractPackage L fs c dir name fs0 fs1 fs2 relBase = (Inr q, c1)"
  shows "map ty_Name (pkg_Types q) = map ty_Name (allTypes L fs1)"
  using assms
  by (auto simp: extractPackage_def Let_def pass2_names pass1_types addTypes_def
      split: prod.splits sum.splits)

lemma extractPackage_assembled:
  assumes "moduleForDir L fs c dir = (Inr m, c1)"
    and "distinct (map ty_Name (allTypes L fs1))"
  shows "extractPackage L fs c dir name fs0 fs1 fs2 relBase =
    (Inr (assembled L m dir name relBase fs0 fs1 fs2), c1)"
proof -
  let ?pkg0 = "\<lparr>pkg_Name = name, pkg_ImportPath = importPath m dir,
      pkg_Dir = toRelPath relBase dir, pkg_Files = packageFiles relBase dir fs0,
      pkg_Types = [], pkg_Functions = []\<rparr>"
  let ?st = "pass1 L fs1 (?pkg0, Map.empty)"
  have ok: "tbnOk (fst ?st, snd ?st)"
    using pass1_tbnOk [OF tbnOk_init, of ?pkg0 L fs1] by simp
  have ty: "pkg_Types (fst ?st) = allTypes L fs1"
    by (simp add: pass1_types addTypes_def)
  have "fold (pass2Func L (snd ?st)) (allFuncs fs2) (fst ?st) =
      (fst ?st)\<lparr>pkg_Types := map (withMethods L (ty_Name ` set (allTypes L fs1)) (allFuncs fs2))
                   (pkg_Types (fst ?st)),
        pkg_Functions := pkg_Functions (fst ?st) @
          freeFuncs L (ty_Name ` set (allTypes L fs1)) (allFuncs fs2)\<rparr>"
    by (rule pass2_fold_bound [OF ok]) (simp_all add: ty assms(2))
  then have "pass2 L (snd ?st) fs2 (fst ?st) = assembled L m dir name relBase fs0 fs1 fs2"
    by (simp add: pass2_funcs assembled_def pass1_types addTypes_def)
  then show ?thesis
    by (simp add: extractPackage_def assms(1) Let_def)
qed

lemma sortType_withMethods_perm:
  assumes "mset F' = mset F"
    and "distinct (map fn_Name (ty_Methods (withMethods L N F t)))"
  shows "sortType (withMethods L N F' t) = sortType (withMethods L N F t)"
proof -
  let ?P = "\<lambda>fn. boundName N fn = Some (ty_Name t)"
  have "mset (ty_Methods t @ map (fnModelOf L) (filter ?P F)) =
      mset (ty_Methods t @ map (fnModelOf L) (filter ?P F'))"
    using assms(1) by simp
  moreover have "distinct (map fn_Name (ty_Methods t @ map (fnModelOf L) (filter ?P F)))"
    using assms(2) by (simp add: withMethods_def)
  ultimately have "sortSlice (\<lambda>a b. fn_Name a < fn_Name b)
        (ty_Methods t @ map (fnModelOf L) (filter ?P F)) =
      sortSlice (\<lambda>a b. fn_Name a < fn_Name b)
        (ty_Methods t @ map (fnModelOf L) (filter ?P F'))"
    by (rule sortSlice_perm)
  then show ?thesis
    by (simp add: sortType_def withMethods_def)
qed

lemma sortPackage_assembled_perm:
  assumes nu: "namesUnique (assembled L m dir name relBase fs0 fs1 fs2)"
    and p0: "mset fs0' = mset fs0" and p1: "mset fs1' = mset fs1" and p2: "mset fs2' = mset fs2"
  shows "sortPackage (assembled L m dir name relBase fs0' fs1' fs2') =
    sortPackage (assembled L m dir name relBase fs0 fs1 fs2)"
proof -
  let ?T = "allTypes L fs1" and ?T' = "allTypes L fs1'"
  let ?F = "allFuncs fs2" and ?F' = "allFuncs fs2'"
  let ?N = "ty_Name ` set ?T"
  let ?byName = "\<lambda>a b. ty_Name a < ty_Name (b :: Type)"
  have mT: "mset ?T' = mset ?T"
    unfolding allTypes_def using p1 by (rule mset_concat_map)
  have mF: "mset ?F' = mset ?F"
    unfolding allFuncs_def using p2 by (rule mset_concat_map)
  have N: "ty_Name ` set ?T' = ?N"
    using mT by (metis mset_eq_setD)
  have nm: "ty_Name (withMethods L N0 F0 t) = ty_Name t" for N0 F0 t
    by (simp add: withMethods_def)
  have dT: "distinct (map ty_Name ?T)"
    using nu by (simp add: namesUnique_def assembled_def comp_def nm)
  have files: "packageFiles relBase dir fs0' = packageFiles relBase dir fs0"
    unfolding packageFiles_def using p0 by (intro sortStrings_perm) simp
  have funcs: "sortSlice (\<lambda>a b. fn_Name a < fn_Name b) (freeFuncs L ?N ?F') =
      sortSlice (\<lambda>a b. fn_Name a < fn_Name b) (freeFuncs L ?N ?F)"
  proof (rule sortSlice_perm [symmetric])
    show "mset (freeFuncs L ?N ?F) = mset (freeFuncs L ?N ?F')"
      using mF by (simp add: freeFuncs_def)
    show "distinct (map fn_Name (freeFuncs L ?N ?F))"
      using nu by (simp add: namesUnique_def assembled_def)
  qed
  have sT: "sortSlice ?byName ?T' = sortSlice ?byName ?T"
    by (rule sortSlice_perm [symmetric]) (use mT dT in simp_all)
  have comm: "sortSlice ?byName (map (withMethods L ?N F0) xs) =
      map (withMethods L ?N F0) (sortSlice ?byName xs)" for F0 xs
    by (rule sortSlice_map) (simp add: nm)
  have each: "sortType (withMethods L ?N ?F' t) = sortType (withMethods L ?N ?F t)"
    if "t \<in> set ?T" for t
  proof (rule sortType_withMethods_perm [OF mF])
    from that have "withMethods L ?N ?F t \<in> set (pkg_Types (assembled L m dir name relBase fs0 fs1 fs2))"
      by (simp add: assembled_def)
    with nu show "distinct (map fn_Name (ty_Methods (withMethods L ?N ?F t)))"
      unfolding namesUnique_def by blast
  qed
  have types: "map sortType (sortSlice ?byName (map (withMethods L ?N ?F') ?T')) =
      map sortType (sortSlice ?byName (map (withMethods L ?N ?F) ?T))"
    unfolding comm sT using each by (simp add: set_sortSlice)
  show ?thesis
    by (simp add: sortPackage_def assembled_def N files funcs types)
qed

text \<open>
  When no two types of the extracted package, no two of its free functions and no two
  methods of one of its types share a name, then processing the files in any other
  order, in each of the three loops over the files, returns a package that is equal to
  it after \<open>sortPackage\<close> (and the same cache).
\<close>

lemma sorted_package_order_independent:
  assumes "extractPackage L fs c dir name fs0 fs1 fs2 relBase = (Inr q, c1)"
    and "namesUnique q"
    and "mset fs0' = mset fs0" and "mset fs1' = mset fs1" and "mset fs2' = mset fs2"
  shows "\<exists>q'. extractPackage L fs c dir name fs0' fs1' fs2' relBase = (Inr q', c1) \<and>
    sortPackage q' = sortPackage q"
proof -
  from assms(1) obtain m where m: "moduleForDir L fs c dir = (Inr m, c1)"
    by (auto simp: extractPackage_def Let_def split: prod.splits sum.splits)
  have d: "distinct (map ty_Name (allTypes L fs1))"
    using assms(2) extractPackage_names [OF assms(1)] by (simp add: namesUnique_def)
  have "mset (allTypes L fs1') = mset (allTypes L fs1)"
    unfolding allTypes_def using assms(4) by (rule mset_concat_map)
  then have "mset (map ty_Name (allTypes L fs1')) = mset (map ty_Name (allTypes L fs1))"
    by simp
  with d have d': "distinct (map ty_Name (allTypes L fs1'))"
    by (metis mset_eq_imp_distinct_iff)
  have q: "q = assembled L m dir name relBase fs0 fs1 fs2"
    using extractPackage_assembled [OF m d, of name fs0 fs2 relBase] assms(1) by simp
  have "extractPackage L fs c dir name fs0' fs1' fs2' relBase =
      (Inr (assembled L m dir name relBase fs0' fs1' fs2'), c1)"
    by (rule extractPackage_assembled [OF m d'])
  moreover have "sortPackage (assembled L m dir name relBase fs0' fs1' fs2') = sortPackage q"
    unfolding q by (rule sortPackage_assembled_perm) (use assms q in simp_all)
  ultimately show ?thesis by blast
qed

lemma sorted_package_order_independent_example:
  "sortPackage (projr (fst (extractPackage asciiLib exampleFs Map.empty [''root'', ''sub'']
      ''sample'' (rev mixedFiles) (rev mixedFiles) (rev mixedFiles) [''root'']))) =
   sortPackage (projr (fst (extractPackage asciiLib exampleFs Map.empty [''root'', ''sub'']
      ''sample'' mixedFiles mixedFiles mixedFiles [''root''])))"
proof -
  let ?r = "extractPackage asciiLib exampleFs Map.empty [''root'', ''sub'']
      ''sample'' mixedFiles mixedFiles mixedFiles [''root'']"
  have u: "fst ?r = Inr (projr (fst ?r)) \<and> namesUnique (projr (fst ?r))"
    by code_simp
  then have e: "?r = (Inr (projr (fst ?r)), snd ?r)"
    by (metis prod.collapse)
  have m: "mset (rev mixedFiles) = mset mixedFiles"
    by simp
  from sorted_package_order_independent [OF e _ m m m] u
  obtain q' where "extractPackage asciiLib exampleFs Map.empty [''root'', ''sub'']
      ''sample'' (rev mixedFiles) (rev mixedFiles) (rev mixedFiles) [''root''] = (Inr q', snd ?r)"
    and "sortPackage q' = sortPackage (projr (fst ?r))"
    by blast
  then show ?thesis
    by simp
qed

text \<open>
  C9. The sorted package depends on the order in which the files are processed when
  names repeat, since \<open>sortPackage\<close> compares names only. Two files of one package, each
  declaring \<^verbatim>\<open>func init()\<close> with its own doc comment: processed in the order a.go, b.go
  the sorted package lists the function documented "first" before the one documented
  "second"; processed in the order b.go, a.go it lists them the other way round, so the
  two sorted packages differ.
\<close>

theorem file_order_changes_package:
  "map fn_Doc (pkg_Functions (sortPackage (projr (fst
      (extractPackage asciiLib exampleFs Map.empty [''root'', ''sub''] ''sample''
         initFiles initFiles initFiles [''root''])))))
     = [''first'', ''second''] \<and>
   map fn_Doc (pkg_Functions (sortPackage (projr (fst
      (extractPackage asciiLib exampleFs Map.empty [''root'', ''sub''] ''sample''
         (rev initFiles) (rev initFiles) (rev initFiles) [''root''])))))
     = [''second'', ''first''] \<and>
   sortPackage (projr (fst
      (extractPackage asciiLib exampleFs Map.empty [''root'', ''sub''] ''sample''
         initFiles initFiles initFiles [''root''])))
     \<noteq>
   sortPackage (projr (fst
      (extractPackage asciiLib exampleFs Map.empty [''root'', ''sub''] ''sample''
         (rev initFiles) (rev initFiles) (rev initFiles) [''root''])))"
  by code_simp

end
